theory Spec2Isabelle
  imports Main "HOL-Library.Word" "HOL-Library.Char_ord" "HOL-Library.List_Lexorder"
begin

unbundle bit_operations_syntax

section \<open>Common data\<close>

text \<open>
  Keys and values are byte strings (\<open>std::string\<close>); the order on strings is the one of
  \<open>std::string::operator<\<close>: lexicographic on unsigned bytes, a proper prefix first.
  A table is the sequence of its key/value pairs in the order the backend's cursor
  visits them.
\<close>

type_synonym table = "(string \<times> string) list"

text \<open>
  \<open>common::Error\<close> is either empty (success, \<open>None\<close>) or carries a description.
  \<open>make_error_inval\<close> gives \<open>ErrInval\<close>; the errors built from a command name and the
  native library's text for a status (\<open>"%s function error: %s"\<close>) keep the command and
  the status. \<open>ErrNotConnected\<close> is the error of the base class for a connection without
  a handle.
\<close>

datatype error = ErrInval | ErrNotConnected | ErrCommand string int

definition EINVAL :: int where "EINVAL = 22"
definition EACCES :: int where "EACCES = 13"

fun tbl_put :: "string \<Rightarrow> string \<Rightarrow> table \<Rightarrow> table" where
  "tbl_put k v [] = [(k, v)]"
| "tbl_put k v ((k', v') # rest) =
     (if k = k' then (k, v) # rest
      else if k < k' then (k, v) # (k', v') # rest
      else (k', v') # tbl_put k v rest)"

definition tbl_del :: "string \<Rightarrow> table \<Rightarrow> table" where
  "tbl_del k t = filter (\<lambda>kv. fst kv \<noteq> k) t"

section \<open>The LMDB library, as the connection uses it\<close>

text \<open>
  The environment holds the named databases in their committed state. Every call of the
  library that can fail takes its status from \<open>faults\<close>, the statuses the library is going
  to report for reasons outside the model (I/O, map full, bad handle): the head of the
  list when there is one, success otherwise. A status other than 0 makes the call fail
  with no effect. The trace records the transaction calls, the deletions and the opening
  and closing of database handles, in the order they happen.
\<close>

definition LMDB_OK :: int where "LMDB_OK = 0"
definition MDB_NOTFOUND :: int where "MDB_NOTFOUND = - 30798"
definition MDB_RDONLY :: "32 word" where "MDB_RDONLY = 0x20000"
definition MDB_CREATE :: "32 word" where "MDB_CREATE = 0x40000"

text \<open>
  A database handle stands for the one database it was opened for, so a handle is the
  name of its database; the handle 0 of a fresh \<open>struct lmdb\<close> is no database.
\<close>

type_synonym MDB_dbi = "string option"

datatype mdb_event =
  TxnBegin | TxnCommit int | TxnAbort | Del string int | DbiOpen string int | DbiClose MDB_dbi

record MDB_env =
  dbs :: "string \<Rightarrow> table option"
  faults :: "int list"
  trace :: "mdb_event list"

record MDB_txn =
  txn_dbs :: "string \<Rightarrow> table option"
  txn_rdonly :: bool

type_synonym MDB_cursor = "string list"

definition mdb_status :: "MDB_env \<Rightarrow> int \<times> MDB_env" where
  "mdb_status e = (case faults e of [] \<Rightarrow> (0, e) | rc # rest \<Rightarrow> (rc, e\<lparr>faults := rest\<rparr>))"

definition mdb_log :: "mdb_event \<Rightarrow> MDB_env \<Rightarrow> MDB_env" where
  "mdb_log ev e = e\<lparr>trace := trace e @ [ev]\<rparr>"

definition null_txn :: MDB_txn where
  "null_txn = \<lparr>txn_dbs = (\<lambda>n. None), txn_rdonly = True\<rparr>"

definition mdb_txn_begin :: "MDB_env \<Rightarrow> 32 word \<Rightarrow> int \<times> MDB_txn \<times> MDB_env" where
  "mdb_txn_begin e flags =
     (case mdb_status e of (rc, e1) \<Rightarrow>
        if rc \<noteq> 0 then (rc, null_txn, e1)
        else (0, \<lparr>txn_dbs = dbs e1, txn_rdonly = (flags AND MDB_RDONLY \<noteq> 0)\<rparr>,
              mdb_log TxnBegin e1))"

definition mdb_txn_commit :: "MDB_env \<Rightarrow> MDB_txn \<Rightarrow> int \<times> MDB_env" where
  "mdb_txn_commit e txn =
     (case mdb_status e of (rc, e1) \<Rightarrow>
        if rc \<noteq> 0 then (rc, mdb_log (TxnCommit rc) e1)
        else (0, mdb_log (TxnCommit 0) (e1\<lparr>dbs := txn_dbs txn\<rparr>)))"

definition mdb_txn_abort :: "MDB_env \<Rightarrow> MDB_txn \<Rightarrow> MDB_env" where
  "mdb_txn_abort e txn = mdb_log TxnAbort e"

definition dbi_table :: "MDB_txn \<Rightarrow> MDB_dbi \<Rightarrow> (string \<times> table) option" where
  "dbi_table txn dbi =
     (case dbi of None \<Rightarrow> None
      | Some n \<Rightarrow> (case txn_dbs txn n of None \<Rightarrow> None | Some t \<Rightarrow> Some (n, t)))"

definition mdb_dbi_open ::
  "MDB_env \<Rightarrow> MDB_txn \<Rightarrow> string \<Rightarrow> 32 word \<Rightarrow> int \<times> MDB_dbi \<times> MDB_txn \<times> MDB_env" where
  "mdb_dbi_open e txn name flags =
     (case mdb_status e of (rc, e1) \<Rightarrow>
        if rc \<noteq> 0 then (rc, None, txn, mdb_log (DbiOpen name rc) e1)
        else (case txn_dbs txn name of
                Some t \<Rightarrow> (0, Some name, txn, mdb_log (DbiOpen name 0) e1)
              | None \<Rightarrow>
                  if flags AND MDB_CREATE = 0
                  then (MDB_NOTFOUND, None, txn, mdb_log (DbiOpen name MDB_NOTFOUND) e1)
                  else if txn_rdonly txn
                  then (EACCES, None, txn, mdb_log (DbiOpen name EACCES) e1)
                  else (0, Some name, txn\<lparr>txn_dbs := (txn_dbs txn)(name \<mapsto> [])\<rparr>,
                        mdb_log (DbiOpen name 0) e1)))"

definition mdb_dbi_close :: "MDB_env \<Rightarrow> MDB_dbi \<Rightarrow> MDB_env" where
  "mdb_dbi_close e dbi = mdb_log (DbiClose dbi) e"

definition mdb_get :: "MDB_env \<Rightarrow> MDB_txn \<Rightarrow> MDB_dbi \<Rightarrow> string \<Rightarrow> int \<times> string \<times> MDB_env" where
  "mdb_get e txn dbi key =
     (case mdb_status e of (rc, e1) \<Rightarrow>
        if rc \<noteq> 0 then (rc, [], e1)
        else (case dbi_table txn dbi of
                None \<Rightarrow> (EINVAL, [], e1)
              | Some (n, t) \<Rightarrow>
                  (case map_of t key of
                     None \<Rightarrow> (MDB_NOTFOUND, [], e1)
                   | Some v \<Rightarrow> (0, v, e1))))"

definition mdb_put ::
  "MDB_env \<Rightarrow> MDB_txn \<Rightarrow> MDB_dbi \<Rightarrow> string \<Rightarrow> string \<Rightarrow> int \<times> MDB_txn \<times> MDB_env" where
  "mdb_put e txn dbi key data =
     (case mdb_status e of (rc, e1) \<Rightarrow>
        if rc \<noteq> 0 then (rc, txn, e1)
        else if txn_rdonly txn then (EACCES, txn, e1)
        else (case dbi_table txn dbi of
                None \<Rightarrow> (EINVAL, txn, e1)
              | Some (n, t) \<Rightarrow>
                  (0, txn\<lparr>txn_dbs := (txn_dbs txn)(n \<mapsto> tbl_put key data t)\<rparr>, e1)))"

definition mdb_del_status :: "MDB_txn \<Rightarrow> MDB_dbi \<Rightarrow> string \<Rightarrow> int \<Rightarrow> int" where
  "mdb_del_status txn dbi key rc =
     (if rc \<noteq> 0 then rc
      else if txn_rdonly txn then EACCES
      else (case dbi_table txn dbi of
              None \<Rightarrow> EINVAL
            | Some (n, t) \<Rightarrow> (if map_of t key = None then MDB_NOTFOUND else 0)))"

definition mdb_del ::
  "MDB_env \<Rightarrow> MDB_txn \<Rightarrow> MDB_dbi \<Rightarrow> string \<Rightarrow> int \<times> MDB_txn \<times> MDB_env" where
  "mdb_del e txn dbi key =
     (case mdb_status e of (rc, e1) \<Rightarrow>
        (let st = mdb_del_status txn dbi key rc in
         (st,
          (if st \<noteq> 0 then txn
           else (case dbi_table txn dbi of
                   None \<Rightarrow> txn
                 | Some (n, t) \<Rightarrow> txn\<lparr>txn_dbs := (txn_dbs txn)(n \<mapsto> tbl_del key t)\<rparr>)),
          mdb_log (Del key st) e1)))"

text \<open>
  A cursor walks the keys its database had when the cursor was opened; \<open>MDB_NEXT\<close> takes
  the next of them, and reports \<open>MDB_NOTFOUND\<close> after the last. Deleting, in the
  transaction of the cursor, the key the cursor is at does not disturb the walk: the
  library moves the cursor on to the key that followed.
\<close>

definition mdb_cursor_open ::
  "MDB_env \<Rightarrow> MDB_txn \<Rightarrow> MDB_dbi \<Rightarrow> int \<times> MDB_cursor \<times> MDB_env" where
  "mdb_cursor_open e txn dbi =
     (case mdb_status e of (rc, e1) \<Rightarrow>
        if rc \<noteq> 0 then (rc, [], e1)
        else (case dbi_table txn dbi of
                None \<Rightarrow> (EINVAL, [], e1)
              | Some (n, t) \<Rightarrow> (0, map fst t, e1)))"

definition mdb_cursor_get :: "MDB_env \<Rightarrow> MDB_cursor \<Rightarrow> int \<times> string \<times> MDB_cursor \<times> MDB_env" where
  "mdb_cursor_get e cur =
     (case mdb_status e of (rc, e1) \<Rightarrow>
        if rc \<noteq> 0 then (rc, [], cur, e1)
        else (case cur of
                [] \<Rightarrow> (MDB_NOTFOUND, [], cur, e1)
              | k # rest \<Rightarrow> (0, k, rest, e1)))"

section \<open>The LMDB connection\<close>

text \<open>
  \<open>struct lmdb\<close>: the environment pointer is the environment the functions are given;
  \<open>dbir\<close> is the open database handle and \<open>db_name\<close> the name it was selected by
  (\<open>None\<close> is the null pointer).
\<close>

record lmdb =
  dbir :: MDB_dbi
  db_name :: "string option"

record lmdb_config =
  cfg_db_name :: string
  cfg_env_flags :: "32 word"

definition lmdb_db_flag_from_env_flags :: "32 word \<Rightarrow> 32 word" where
  "lmdb_db_flag_from_env_flags env_flags = (if env_flags AND MDB_RDONLY \<noteq> 0 then MDB_RDONLY else 0)"

definition lmdb_CheckResultCommand :: "string \<Rightarrow> int \<Rightarrow> error option" where
  "lmdb_CheckResultCommand cmd err = (if err \<noteq> LMDB_OK then Some (ErrCommand cmd err) else None)"

text \<open>
  The loop of \<open>ScanImpl\<close>: \<open>offset_pos\<close> and \<open>lkeys_out\<close> are its variables; the result is
  \<open>lkeys_out\<close> and \<open>lcursor_out\<close>, which stays 0 unless the loop leaves through its
  \<open>else\<close> branch. \<open>mp\<close> is \<open>common::MatchPattern\<close>, a function of the common library.
\<close>

function lmdb_scan_loop ::
  "(string \<Rightarrow> string \<Rightarrow> bool) \<Rightarrow> MDB_env \<Rightarrow> MDB_cursor \<Rightarrow> 64 word \<Rightarrow> string \<Rightarrow> 64 word \<Rightarrow>
     64 word \<Rightarrow> string list \<Rightarrow> string list \<times> 64 word \<times> MDB_env" where
  "lmdb_scan_loop mp e cur cursor_in pattern count_keys offset_pos lkeys_out =
     (case mdb_cursor_get e cur of (rc, skey, cur', e') \<Rightarrow>
        if rc = LMDB_OK then
          (if length lkeys_out < unat count_keys then
             (if mp skey pattern then
                (if offset_pos = 0
                 then lmdb_scan_loop mp e' cur' cursor_in pattern count_keys offset_pos
                        (lkeys_out @ [skey])
                 else lmdb_scan_loop mp e' cur' cursor_in pattern count_keys (offset_pos - 1)
                        lkeys_out)
              else lmdb_scan_loop mp e' cur' cursor_in pattern count_keys offset_pos lkeys_out)
           else (lkeys_out, cursor_in + count_keys, e'))
        else (lkeys_out, 0, e'))"
  by pat_completeness auto
termination
  by (relation "measure (\<lambda>(mp, e, cur, rest). length cur)")
     (auto simp: mdb_cursor_get_def LMDB_OK_def MDB_NOTFOUND_def
           split: prod.splits if_splits list.splits)

declare lmdb_scan_loop.simps [simp del]

definition lmdb_ScanImpl ::
  "(string \<Rightarrow> string \<Rightarrow> bool) \<Rightarrow> MDB_env \<Rightarrow> lmdb \<Rightarrow> 64 word \<Rightarrow> string \<Rightarrow> 64 word \<Rightarrow>
     (error + string list \<times> 64 word) \<times> MDB_env" where
  "lmdb_ScanImpl mp e ctx cursor_in pattern count_keys =
     (case mdb_txn_begin e MDB_RDONLY of (rc, txn, e1) \<Rightarrow>
        (case lmdb_CheckResultCommand ''SCAN'' rc of
           Some err \<Rightarrow> (Inl err, e1)
         | None \<Rightarrow>
             (case mdb_cursor_open e1 txn (dbir ctx) of (rc2, cur, e2) \<Rightarrow>
                (case lmdb_CheckResultCommand ''SCAN'' rc2 of
                   Some err \<Rightarrow> (Inl err, mdb_txn_abort e2 txn)
                 | None \<Rightarrow>
                     (case lmdb_scan_loop mp e2 cur cursor_in pattern count_keys cursor_in [] of
                        (lkeys_out, lcursor_out, e3) \<Rightarrow>
                          (Inr (lkeys_out, lcursor_out), mdb_txn_abort e3 txn))))))"

text \<open>
  The loop of \<open>KeysImpl\<close>: the cursor moves first, then the limit is compared with the
  size of \<open>ret\<close>.
\<close>

function lmdb_keys_loop ::
  "MDB_env \<Rightarrow> MDB_cursor \<Rightarrow> string \<Rightarrow> string \<Rightarrow> 64 word \<Rightarrow> string list \<Rightarrow>
     string list \<times> MDB_env" where
  "lmdb_keys_loop e cur key_start key_end limit ret =
     (case mdb_cursor_get e cur of (rc, skey, cur', e') \<Rightarrow>
        if rc = LMDB_OK \<and> unat limit > length ret then
          (if key_start < skey \<and> key_end > skey
           then lmdb_keys_loop e' cur' key_start key_end limit (ret @ [skey])
           else lmdb_keys_loop e' cur' key_start key_end limit ret)
        else (ret, e'))"
  by pat_completeness auto
termination
  by (relation "measure (\<lambda>(e, cur, rest). length cur)")
     (auto simp: mdb_cursor_get_def LMDB_OK_def MDB_NOTFOUND_def
           split: prod.splits if_splits list.splits)

declare lmdb_keys_loop.simps [simp del]

definition lmdb_KeysImpl ::
  "MDB_env \<Rightarrow> lmdb \<Rightarrow> string \<Rightarrow> string \<Rightarrow> 64 word \<Rightarrow> string list \<Rightarrow>
     error option \<times> string list \<times> MDB_env" where
  "lmdb_KeysImpl e ctx key_start key_end limit ret =
     (case mdb_txn_begin e MDB_RDONLY of (rc, txn, e1) \<Rightarrow>
        (case lmdb_CheckResultCommand ''KEYS'' rc of
           Some err \<Rightarrow> (Some err, ret, e1)
         | None \<Rightarrow>
             (case mdb_cursor_open e1 txn (dbir ctx) of (rc2, cur, e2) \<Rightarrow>
                (case lmdb_CheckResultCommand ''KEYS'' rc2 of
                   Some err \<Rightarrow> (Some err, ret, mdb_txn_abort e2 txn)
                 | None \<Rightarrow>
                     (case lmdb_keys_loop e2 cur key_start key_end limit ret of
                        (ret', e3) \<Rightarrow> (None, ret', mdb_txn_abort e3 txn))))))"

function lmdb_count_loop :: "MDB_env \<Rightarrow> MDB_cursor \<Rightarrow> nat \<Rightarrow> nat \<times> MDB_env" where
  "lmdb_count_loop e cur sz =
     (case mdb_cursor_get e cur of (rc, skey, cur', e') \<Rightarrow>
        if rc = LMDB_OK then lmdb_count_loop e' cur' (sz + 1) else (sz, e'))"
  by pat_completeness auto
termination
  by (relation "measure (\<lambda>(e, cur, sz). length cur)")
     (auto simp: mdb_cursor_get_def LMDB_OK_def MDB_NOTFOUND_def
           split: prod.splits if_splits list.splits)

declare lmdb_count_loop.simps [simp del]

definition lmdb_DBkcountImpl :: "MDB_env \<Rightarrow> lmdb \<Rightarrow> (error + nat) \<times> MDB_env" where
  "lmdb_DBkcountImpl e ctx =
     (case mdb_txn_begin e MDB_RDONLY of (rc, txn, e1) \<Rightarrow>
        (case lmdb_CheckResultCommand ''DBKCOUNT'' rc of
           Some err \<Rightarrow> (Inl err, e1)
         | None \<Rightarrow>
             (case mdb_cursor_open e1 txn (dbir ctx) of (rc2, cur, e2) \<Rightarrow>
                (case lmdb_CheckResultCommand ''DBKCOUNT'' rc2 of
                   Some err \<Rightarrow> (Inl err, mdb_txn_abort e2 txn)
                 | None \<Rightarrow>
                     (case lmdb_count_loop e2 cur 0 of
                        (sz, e3) \<Rightarrow> (Inr sz, mdb_txn_abort e3 txn))))))"

text \<open>
  The loop of \<open>FlushDBImpl\<close>. A failed \<open>mdb_del\<close> leaves the function from inside the
  loop: the loop then gives the error back, and \<open>FlushDBImpl\<close> closes the cursor and
  aborts the transaction.
\<close>

function lmdb_flush_loop ::
  "MDB_env \<Rightarrow> MDB_txn \<Rightarrow> MDB_dbi \<Rightarrow> MDB_cursor \<Rightarrow> nat \<Rightarrow> error option \<times> nat \<times> MDB_txn \<times> MDB_env" where
  "lmdb_flush_loop e txn dbi cur sz =
     (case mdb_cursor_get e cur of (rc, key, cur', e1) \<Rightarrow>
        if rc = LMDB_OK then
          (case mdb_del e1 txn dbi key of (rc2, txn2, e2) \<Rightarrow>
             (case lmdb_CheckResultCommand ''FLUSHDB'' rc2 of
                Some err \<Rightarrow> (Some err, sz + 1, txn2, e2)
              | None \<Rightarrow> lmdb_flush_loop e2 txn2 dbi cur' (sz + 1)))
        else (None, sz, txn, e1))"
  by pat_completeness auto
termination
  by (relation "measure (\<lambda>(e, txn, dbi, cur, sz). length cur)")
     (auto simp: mdb_cursor_get_def LMDB_OK_def MDB_NOTFOUND_def
           split: prod.splits if_splits list.splits)

declare lmdb_flush_loop.simps [simp del]

definition lmdb_FlushDBImpl :: "MDB_env \<Rightarrow> lmdb \<Rightarrow> lmdb_config \<Rightarrow> error option \<times> MDB_env" where
  "lmdb_FlushDBImpl e ctx conf =
     (case mdb_txn_begin e (lmdb_db_flag_from_env_flags (cfg_env_flags conf)) of (rc, txn, e1) \<Rightarrow>
        (case lmdb_CheckResultCommand ''FLUSHDB'' rc of
           Some err \<Rightarrow> (Some err, e1)
         | None \<Rightarrow>
             (case mdb_cursor_open e1 txn (dbir ctx) of (rc2, cur, e2) \<Rightarrow>
                (case lmdb_CheckResultCommand ''FLUSHDB'' rc2 of
                   Some err \<Rightarrow> (Some err, mdb_txn_abort e2 txn)
                 | None \<Rightarrow>
                     (case lmdb_flush_loop e2 txn (dbir ctx) cur 0 of
                        (Some err, sz, txn3, e3) \<Rightarrow> (Some err, mdb_txn_abort e3 txn3)
                      | (None, sz, txn3, e3) \<Rightarrow>
                          if sz \<noteq> 0 then
                            (case mdb_txn_commit e3 txn3 of (rc3, e4) \<Rightarrow>
                               (lmdb_CheckResultCommand ''FLUSHDB'' rc3, e4))
                          else (None, mdb_txn_abort e3 txn3))))))"

definition lmdb_SetInner ::
  "MDB_env \<Rightarrow> lmdb \<Rightarrow> lmdb_config \<Rightarrow> string \<Rightarrow> string \<Rightarrow> error option \<times> MDB_env" where
  "lmdb_SetInner e ctx conf key data =
     (case mdb_txn_begin e (lmdb_db_flag_from_env_flags (cfg_env_flags conf)) of (rc, txn, e1) \<Rightarrow>
        (case lmdb_CheckResultCommand ''SET'' rc of
           Some err \<Rightarrow> (Some err, e1)
         | None \<Rightarrow>
             (case mdb_put e1 txn (dbir ctx) key data of (rc2, txn2, e2) \<Rightarrow>
                (case lmdb_CheckResultCommand ''SET'' rc2 of
                   Some err \<Rightarrow> (Some err, mdb_txn_abort e2 txn2)
                 | None \<Rightarrow>
                     (case mdb_txn_commit e2 txn2 of (rc3, e3) \<Rightarrow>
                        (lmdb_CheckResultCommand ''SET'' rc3, e3))))))"

definition lmdb_GetInner :: "MDB_env \<Rightarrow> lmdb \<Rightarrow> string \<Rightarrow> (error + string) \<times> MDB_env" where
  "lmdb_GetInner e ctx key =
     (case mdb_txn_begin e MDB_RDONLY of (rc, txn, e1) \<Rightarrow>
        (case lmdb_CheckResultCommand ''GET'' rc of
           Some err \<Rightarrow> (Inl err, e1)
         | None \<Rightarrow>
             (case mdb_get e1 txn (dbir ctx) key of (rc2, mval, e2) \<Rightarrow>
                (case lmdb_CheckResultCommand ''GET'' rc2 of
                   Some err \<Rightarrow> (Inl err, mdb_txn_abort e2 txn)
                 | None \<Rightarrow> (Inr mval, mdb_txn_abort e2 txn)))))"

definition lmdb_DelInner ::
  "MDB_env \<Rightarrow> lmdb \<Rightarrow> lmdb_config \<Rightarrow> string \<Rightarrow> error option \<times> MDB_env" where
  "lmdb_DelInner e ctx conf key =
     (case mdb_txn_begin e (lmdb_db_flag_from_env_flags (cfg_env_flags conf)) of (rc, txn, e1) \<Rightarrow>
        (case lmdb_CheckResultCommand ''DEL'' rc of
           Some err \<Rightarrow> (Some err, e1)
         | None \<Rightarrow>
             (case mdb_del e1 txn (dbir ctx) key of (rc2, txn2, e2) \<Rightarrow>
                (case lmdb_CheckResultCommand ''DEL'' rc2 of
                   Some err \<Rightarrow> (Some err, mdb_txn_abort e2 txn2)
                 | None \<Rightarrow>
                     (case mdb_txn_commit e2 txn2 of (rc3, e3) \<Rightarrow>
                        (lmdb_CheckResultCommand ''DEL'' rc3, e3))))))"

fun lmdb_DeleteImpl ::
  "MDB_env \<Rightarrow> lmdb \<Rightarrow> lmdb_config \<Rightarrow> string list \<Rightarrow> string list \<Rightarrow>
     error option \<times> string list \<times> MDB_env" where
  "lmdb_DeleteImpl e ctx conf [] deleted_keys = (None, deleted_keys, e)"
| "lmdb_DeleteImpl e ctx conf (key # keys) deleted_keys =
     (case lmdb_DelInner e ctx conf key of
        (Some err, e') \<Rightarrow> lmdb_DeleteImpl e' ctx conf keys deleted_keys
      | (None, e') \<Rightarrow> lmdb_DeleteImpl e' ctx conf keys (deleted_keys @ [key]))"

definition lmdb_RenameImpl ::
  "MDB_env \<Rightarrow> lmdb \<Rightarrow> lmdb_config \<Rightarrow> string \<Rightarrow> string \<Rightarrow> error option \<times> MDB_env" where
  "lmdb_RenameImpl e ctx conf key new_key =
     (case lmdb_GetInner e ctx key of
        (Inl err, e1) \<Rightarrow> (Some err, e1)
      | (Inr value_str, e1) \<Rightarrow>
          (case lmdb_DelInner e1 ctx conf key of
             (Some err, e2) \<Rightarrow> (Some err, e2)
           | (None, e2) \<Rightarrow>
               (case lmdb_SetInner e2 ctx conf new_key value_str of
                  (Some err, e3) \<Rightarrow> (Some err, e3)
                | (None, e3) \<Rightarrow> (None, e3))))"

text \<open>
  \<open>lmdb_select\<close> gets C strings: \<open>name.c_str()\<close> ends at the first zero byte of \<open>name\<close>.
  The status of \<open>mdb_txn_commit\<close> is not looked at.
\<close>

definition c_str :: "string \<Rightarrow> string" where
  "c_str s = takeWhile (\<lambda>c. c \<noteq> CHR 0x00) s"

definition lmdb_select ::
  "MDB_env \<Rightarrow> lmdb option \<Rightarrow> string option \<Rightarrow> 32 word \<Rightarrow> int \<times> lmdb option \<times> MDB_env" where
  "lmdb_select e ctxp namep env_flags =
     (case (ctxp, namep) of
        (Some ctx, Some name) \<Rightarrow>
          if db_name ctx = Some name then (LMDB_OK, ctxp, e)
          else
            (case mdb_txn_begin e (lmdb_db_flag_from_env_flags env_flags) of (rc, txn, e1) \<Rightarrow>
               if rc \<noteq> LMDB_OK then (rc, ctxp, e1)
               else
                 (case mdb_dbi_open e1 txn name
                         (if env_flags AND MDB_RDONLY \<noteq> 0 then 0 else MDB_CREATE) of
                    (rc2, ldbi, txn2, e2) \<Rightarrow>
                      if rc2 \<noteq> LMDB_OK then (rc2, ctxp, mdb_txn_abort e2 txn2)
                      else
                        (case mdb_txn_commit e2 txn2 of (rc3, e3) \<Rightarrow>
                           (rc2, Some (ctx\<lparr>dbir := ldbi, db_name := Some name\<rparr>),
                            mdb_dbi_close e3 (dbir ctx)))))
      | _ \<Rightarrow> (EINVAL, ctxp, e))"

record lmdb_connection =
  handle :: "lmdb option"
  config :: lmdb_config

record DataBaseInfo =
  info_name :: string
  info_flag :: bool
  info_kcount :: nat

text \<open>
  Modelled from the spec: \<open>DBkcount\<close> of the base class, which is not among the sources.
  It forwards to \<open>DBkcountImpl\<close> on a connected connection and fails before touching the
  backend otherwise. \<open>SelectImpl\<close> starts from \<open>kcount = 0\<close> and ignores the error.
\<close>

definition lmdb_DBkcount :: "MDB_env \<Rightarrow> lmdb_connection \<Rightarrow> (error + nat) \<times> MDB_env" where
  "lmdb_DBkcount e conn =
     (case handle conn of
        None \<Rightarrow> (Inl ErrNotConnected, e)
      | Some ctx \<Rightarrow> lmdb_DBkcountImpl e ctx)"

definition lmdb_SelectImpl ::
  "MDB_env \<Rightarrow> lmdb_connection \<Rightarrow> string \<Rightarrow> (error + DataBaseInfo) \<times> lmdb_connection \<times> MDB_env" where
  "lmdb_SelectImpl e conn name =
     (case lmdb_select e (handle conn) (Some (c_str name)) (cfg_env_flags (config conn)) of
        (rc, h, e1) \<Rightarrow>
          (case lmdb_CheckResultCommand ''SELECT'' rc of
             Some err \<Rightarrow> (Inl err, conn\<lparr>handle := h\<rparr>, e1)
           | None \<Rightarrow>
               (let conn' = conn\<lparr>handle := h, config := (config conn)\<lparr>cfg_db_name := name\<rparr>\<rparr> in
                (case lmdb_DBkcount e1 conn' of
                   (r, e2) \<Rightarrow>
                     (Inr \<lparr>info_name = name, info_flag = True,
                           info_kcount = (case r of Inl err \<Rightarrow> 0 | Inr kcount \<Rightarrow> kcount)\<rparr>,
                      conn', e2)))))"

section \<open>The upscaledb library, as the connection uses it\<close>

text \<open>
  The environment holds the databases by their number. No call of the connection passes
  a transaction (the \<open>txn\<close> argument is always 0), so every change is applied at once.
  As for LMDB, \<open>ufaults\<close> are the statuses the library is going to report for reasons
  outside the model, and the trace records the opening and closing of databases and the
  erasures. A database handle is the number of its database; \<open>None\<close> is the null pointer.
\<close>

definition UPS_SUCCESS :: int where "UPS_SUCCESS = 0"
definition UPS_INV_PARAMETER :: int where "UPS_INV_PARAMETER = - 8"
definition UPS_KEY_NOT_FOUND :: int where "UPS_KEY_NOT_FOUND = - 11"
definition UPS_DATABASE_NOT_FOUND :: int where "UPS_DATABASE_NOT_FOUND = - 200"

type_synonym ups_db = "16 word option"

datatype ups_event = OpenDb "16 word" int | CloseDb ups_db | CloseEnv | Erase string int

record ups_env =
  udbs :: "16 word \<Rightarrow> table option"
  ufaults :: "int list"
  utrace :: "ups_event list"

type_synonym ups_cursor = "string list"

definition ups_status :: "ups_env \<Rightarrow> int \<times> ups_env" where
  "ups_status e = (case ufaults e of [] \<Rightarrow> (0, e) | st # rest \<Rightarrow> (st, e\<lparr>ufaults := rest\<rparr>))"

definition ups_log :: "ups_event \<Rightarrow> ups_env \<Rightarrow> ups_env" where
  "ups_log ev e = e\<lparr>utrace := utrace e @ [ev]\<rparr>"

definition ups_db_table :: "ups_env \<Rightarrow> ups_db \<Rightarrow> (16 word \<times> table) option" where
  "ups_db_table e dbh =
     (case dbh of None \<Rightarrow> None
      | Some n \<Rightarrow> (case udbs e n of None \<Rightarrow> None | Some t \<Rightarrow> Some (n, t)))"

definition ups_env_open_db :: "ups_env \<Rightarrow> 16 word \<Rightarrow> int \<times> ups_db \<times> ups_env" where
  "ups_env_open_db e num =
     (case ups_status e of (st, e1) \<Rightarrow>
        if st \<noteq> 0 then (st, None, ups_log (OpenDb num st) e1)
        else (case udbs e1 num of
                None \<Rightarrow> (UPS_DATABASE_NOT_FOUND, None, ups_log (OpenDb num UPS_DATABASE_NOT_FOUND) e1)
              | Some t \<Rightarrow> (0, Some num, ups_log (OpenDb num 0) e1)))"

definition ups_db_close :: "ups_env \<Rightarrow> ups_db \<Rightarrow> int \<times> ups_env" where
  "ups_db_close e dbh =
     (case ups_status e of (st, e1) \<Rightarrow>
        (if st \<noteq> 0 then st else if dbh = None then UPS_INV_PARAMETER else 0,
         ups_log (CloseDb dbh) e1))"

definition ups_env_close :: "ups_env \<Rightarrow> int \<times> ups_env" where
  "ups_env_close e = (case ups_status e of (st, e1) \<Rightarrow> (st, ups_log CloseEnv e1))"

definition ups_db_insert :: "ups_env \<Rightarrow> ups_db \<Rightarrow> string \<Rightarrow> string \<Rightarrow> int \<times> ups_env" where
  "ups_db_insert e dbh key data =
     (case ups_status e of (st, e1) \<Rightarrow>
        if st \<noteq> 0 then (st, e1)
        else (case ups_db_table e1 dbh of
                None \<Rightarrow> (UPS_INV_PARAMETER, e1)
              | Some (n, t) \<Rightarrow> (0, e1\<lparr>udbs := (udbs e1)(n \<mapsto> tbl_put key data t)\<rparr>)))"

definition ups_db_find :: "ups_env \<Rightarrow> ups_db \<Rightarrow> string \<Rightarrow> int \<times> string \<times> ups_env" where
  "ups_db_find e dbh key =
     (case ups_status e of (st, e1) \<Rightarrow>
        if st \<noteq> 0 then (st, [], e1)
        else (case ups_db_table e1 dbh of
                None \<Rightarrow> (UPS_INV_PARAMETER, [], e1)
              | Some (n, t) \<Rightarrow>
                  (case map_of t key of
                     None \<Rightarrow> (UPS_KEY_NOT_FOUND, [], e1)
                   | Some v \<Rightarrow> (0, v, e1))))"

definition ups_erase_status :: "ups_env \<Rightarrow> ups_db \<Rightarrow> string \<Rightarrow> int \<Rightarrow> int" where
  "ups_erase_status e dbh key st =
     (if st \<noteq> 0 then st
      else (case ups_db_table e dbh of
              None \<Rightarrow> UPS_INV_PARAMETER
            | Some (n, t) \<Rightarrow> (if map_of t key = None then UPS_KEY_NOT_FOUND else 0)))"

definition ups_db_erase :: "ups_env \<Rightarrow> ups_db \<Rightarrow> string \<Rightarrow> int \<times> ups_env" where
  "ups_db_erase e dbh key =
     (case ups_status e of (st, e1) \<Rightarrow>
        (let st' = ups_erase_status e1 dbh key st in
         (st',
          ups_log (Erase key st')
            (if st' \<noteq> 0 then e1
             else (case ups_db_table e1 dbh of
                     None \<Rightarrow> e1
                   | Some (n, t) \<Rightarrow> e1\<lparr>udbs := (udbs e1)(n \<mapsto> tbl_del key t)\<rparr>)))))"

definition ups_db_count :: "ups_env \<Rightarrow> ups_db \<Rightarrow> int \<times> nat \<times> ups_env" where
  "ups_db_count e dbh =
     (case ups_status e of (st, e1) \<Rightarrow>
        if st \<noteq> 0 then (st, 0, e1)
        else (case ups_db_table e1 dbh of
                None \<Rightarrow> (UPS_INV_PARAMETER, 0, e1)
              | Some (n, t) \<Rightarrow> (0, length t, e1)))"

text \<open>
  A cursor walks the keys its database had when the cursor was created;
  \<open>UPS_CURSOR_NEXT\<close> takes the next of them and reports \<open>UPS_KEY_NOT_FOUND\<close> after the
  last. Erasing the key the cursor is at does not disturb the walk.
\<close>

definition ups_cursor_create :: "ups_env \<Rightarrow> ups_db \<Rightarrow> int \<times> ups_cursor \<times> ups_env" where
  "ups_cursor_create e dbh =
     (case ups_status e of (st, e1) \<Rightarrow>
        if st \<noteq> 0 then (st, [], e1)
        else (case ups_db_table e1 dbh of
                None \<Rightarrow> (UPS_INV_PARAMETER, [], e1)
              | Some (n, t) \<Rightarrow> (0, map fst t, e1)))"

definition ups_cursor_move :: "ups_env \<Rightarrow> ups_cursor \<Rightarrow> int \<times> string \<times> ups_cursor \<times> ups_env" where
  "ups_cursor_move e cur =
     (case ups_status e of (st, e1) \<Rightarrow>
        if st \<noteq> 0 then (st, [], cur, e1)
        else (case cur of
                [] \<Rightarrow> (UPS_KEY_NOT_FOUND, [], cur, e1)
              | k # rest \<Rightarrow> (0, k, rest, e1)))"

section \<open>The upscaledb connection\<close>

text \<open>
  \<open>struct upscaledb\<close>: the environment pointer is the environment the functions are
  given. The code is modelled as built for release: a \<open>DCHECK\<close> does nothing.
\<close>

record upscaledb =
  db :: ups_db
  cur_db :: "16 word"

text \<open>
  Modelled from the spec: the command names behind the macros \<open>DB_SCAN_COMMAND\<close>, ...,
  whose definitions are not among the sources (the table of commands of the spec).
\<close>

definition DB_SCAN_COMMAND :: string where "DB_SCAN_COMMAND = ''SCAN''"
definition DB_KEYS_COMMAND :: string where "DB_KEYS_COMMAND = ''KEYS''"
definition DB_DBKCOUNT_COMMAND :: string where "DB_DBKCOUNT_COMMAND = ''DBKCOUNT''"
definition DB_FLUSHDB_COMMAND :: string where "DB_FLUSHDB_COMMAND = ''FLUSHDB''"
definition DB_SET_KEY_COMMAND :: string where "DB_SET_KEY_COMMAND = ''SET''"
definition DB_GET_KEY_COMMAND :: string where "DB_GET_KEY_COMMAND = ''GET''"
definition DB_DELETE_KEY_COMMAND :: string where "DB_DELETE_KEY_COMMAND = ''DELETE''"

definition ups_CheckResultCommand :: "string \<Rightarrow> int \<Rightarrow> error option" where
  "ups_CheckResultCommand cmd err = (if err \<noteq> UPS_SUCCESS then Some (ErrCommand cmd err) else None)"

definition upscaledb_select ::
  "ups_env \<Rightarrow> upscaledb option \<Rightarrow> 16 word \<Rightarrow> int \<times> upscaledb option \<times> ups_env" where
  "upscaledb_select e ctxp num =
     (case ctxp of
        None \<Rightarrow> (EINVAL, ctxp, e)
      | Some ctx \<Rightarrow>
          if cur_db ctx = num then (UPS_SUCCESS, ctxp, e)
          else
            (case ups_env_open_db e num of (st, dbh, e1) \<Rightarrow>
               if st \<noteq> UPS_SUCCESS then (st, ctxp, e1)
               else
                 (case ups_db_close e1 (db ctx) of (st2, e2) \<Rightarrow>
                    (UPS_SUCCESS, Some (ctx\<lparr>db := dbh, cur_db := num\<rparr>), e2))))"

definition upscaledb_close :: "ups_env \<Rightarrow> upscaledb option \<Rightarrow> upscaledb option \<times> ups_env" where
  "upscaledb_close e ctxp =
     (case ctxp of
        None \<Rightarrow> (ctxp, e)
      | Some lcontext \<Rightarrow>
          (case ups_db_close e (db lcontext) of (st, e1) \<Rightarrow>
             (case ups_env_close e1 of (st2, e2) \<Rightarrow> (None, e2))))"

text \<open>\<open>ConnectionAllocatorTraits::Disconnect\<close> and \<open>IsConnected\<close> of the upscaledb handle.\<close>

definition ups_alloc_Disconnect ::
  "ups_env \<Rightarrow> upscaledb option \<Rightarrow> error option \<times> upscaledb option \<times> ups_env" where
  "ups_alloc_Disconnect e h =
     (case upscaledb_close e h of (h', e') \<Rightarrow> (None, None, e'))"

definition ups_alloc_IsConnected :: "upscaledb option \<Rightarrow> bool" where
  "ups_alloc_IsConnected h = (case h of None \<Rightarrow> False | Some ctx \<Rightarrow> True)"

text \<open>
  Modelled from the spec: \<open>Disconnect\<close> of the base class, which is not among the sources.
  It invokes the allocator's \<open>Disconnect\<close>, and on a connection that is not connected it
  succeeds and does nothing.
\<close>

definition ups_base_Disconnect ::
  "ups_env \<Rightarrow> upscaledb option \<Rightarrow> error option \<times> upscaledb option \<times> ups_env" where
  "ups_base_Disconnect e h =
     (if ups_alloc_IsConnected h then ups_alloc_Disconnect e h else (None, h, e))"

text \<open>
  \<open>DBConnection::Disconnect\<close> writes \<open>cur_db\<close> through \<open>connection_.handle_\<close> before
  anything else; with a null handle that is a write through a null pointer, after which
  the program has no defined behaviour.
\<close>

datatype 'a outcome = NullDeref | Returns 'a

definition ups_Disconnect ::
  "ups_env \<Rightarrow> upscaledb option \<Rightarrow> (error option \<times> upscaledb option \<times> ups_env) outcome" where
  "ups_Disconnect e h =
     (case h of
        None \<Rightarrow> NullDeref
      | Some ctx \<Rightarrow> Returns (ups_base_Disconnect e (Some (ctx\<lparr>cur_db := 0\<rparr>))))"

definition ups_SetInner :: "ups_env \<Rightarrow> upscaledb \<Rightarrow> string \<Rightarrow> string \<Rightarrow> error option \<times> ups_env" where
  "ups_SetInner e ctx key data =
     (case ups_db_insert e (db ctx) key data of (st, e1) \<Rightarrow>
        (ups_CheckResultCommand DB_SET_KEY_COMMAND st, e1))"

definition ups_GetInner :: "ups_env \<Rightarrow> upscaledb \<Rightarrow> string \<Rightarrow> (error + string) \<times> ups_env" where
  "ups_GetInner e ctx key =
     (case ups_db_find e (db ctx) key of (st, data, e1) \<Rightarrow>
        (case ups_CheckResultCommand DB_GET_KEY_COMMAND st of
           Some err \<Rightarrow> (Inl err, e1)
         | None \<Rightarrow> (Inr data, e1)))"

definition ups_DelInner :: "ups_env \<Rightarrow> upscaledb \<Rightarrow> string \<Rightarrow> error option \<times> ups_env" where
  "ups_DelInner e ctx key =
     (case ups_db_erase e (db ctx) key of (st, e1) \<Rightarrow>
        (ups_CheckResultCommand DB_DELETE_KEY_COMMAND st, e1))"

text \<open>
  The loop of \<open>ScanImpl\<close>: here the size of \<open>lkeys_out\<close> is compared with \<open>count_keys\<close>
  before the cursor moves. A status of the cursor other than success and
  \<open>UPS_KEY_NOT_FOUND\<close> leaves the function with an error.
\<close>

function ups_scan_loop ::
  "(string \<Rightarrow> string \<Rightarrow> bool) \<Rightarrow> ups_env \<Rightarrow> ups_cursor \<Rightarrow> 64 word \<Rightarrow> string \<Rightarrow> 64 word \<Rightarrow>
     64 word \<Rightarrow> string list \<Rightarrow> (error + string list \<times> 64 word) \<times> ups_env" where
  "ups_scan_loop mp e cur cursor_in pattern count_keys offset_pos lkeys_out =
     (if length lkeys_out < unat count_keys then
        (case ups_cursor_move e cur of (st, skey, cur', e') \<Rightarrow>
           if st = UPS_SUCCESS then
             (if mp skey pattern then
                (if offset_pos = 0
                 then ups_scan_loop mp e' cur' cursor_in pattern count_keys offset_pos
                        (lkeys_out @ [skey])
                 else ups_scan_loop mp e' cur' cursor_in pattern count_keys (offset_pos - 1)
                        lkeys_out)
              else ups_scan_loop mp e' cur' cursor_in pattern count_keys offset_pos lkeys_out)
           else if st \<noteq> UPS_KEY_NOT_FOUND then (Inl (ErrCommand ''SCAN'' st), e')
           else (Inr (lkeys_out, 0), e'))
      else (Inr (lkeys_out, cursor_in + count_keys), e))"
  by pat_completeness auto
termination
  by (relation "measure (\<lambda>(mp, e, cur, rest). length cur)")
     (auto simp: ups_cursor_move_def UPS_SUCCESS_def UPS_KEY_NOT_FOUND_def
           split: prod.splits if_splits list.splits)

declare ups_scan_loop.simps [simp del]

definition ups_ScanImpl ::
  "(string \<Rightarrow> string \<Rightarrow> bool) \<Rightarrow> ups_env \<Rightarrow> upscaledb \<Rightarrow> 64 word \<Rightarrow> string \<Rightarrow> 64 word \<Rightarrow>
     (error + string list \<times> 64 word) \<times> ups_env" where
  "ups_ScanImpl mp e ctx cursor_in pattern count_keys =
     (case ups_cursor_create e (db ctx) of (st, cur, e1) \<Rightarrow>
        (case ups_CheckResultCommand DB_SCAN_COMMAND st of
           Some err \<Rightarrow> (Inl err, e1)
         | None \<Rightarrow> ups_scan_loop mp e1 cur cursor_in pattern count_keys cursor_in []))"

text \<open>
  The loop of \<open>KeysImpl\<close> is a \<open>do ... while\<close>: its body runs before the limit is
  compared with the size of \<open>ret\<close> for the first time.
\<close>

function ups_keys_loop ::
  "ups_env \<Rightarrow> ups_cursor \<Rightarrow> string \<Rightarrow> string \<Rightarrow> 64 word \<Rightarrow> string list \<Rightarrow>
     error option \<times> string list \<times> ups_env" where
  "ups_keys_loop e cur key_start key_end limit ret =
     (case ups_cursor_move e cur of (st, skey, cur', e') \<Rightarrow>
        if st = UPS_SUCCESS then
          (let ret' = (if key_start < skey \<and> key_end > skey then ret @ [skey] else ret) in
           if unat limit > length ret'
           then ups_keys_loop e' cur' key_start key_end limit ret'
           else (None, ret', e'))
        else if st \<noteq> UPS_KEY_NOT_FOUND then (Some (ErrCommand ''KEYS'' st), ret, e')
        else (None, ret, e'))"
  by pat_completeness auto
termination
  by (relation "measure (\<lambda>(e, cur, rest). length cur)")
     (auto simp: ups_cursor_move_def UPS_SUCCESS_def UPS_KEY_NOT_FOUND_def
           split: prod.splits if_splits list.splits)

declare ups_keys_loop.simps [simp del]

definition ups_KeysImpl ::
  "ups_env \<Rightarrow> upscaledb \<Rightarrow> string \<Rightarrow> string \<Rightarrow> 64 word \<Rightarrow> string list \<Rightarrow>
     error option \<times> string list \<times> ups_env" where
  "ups_KeysImpl e ctx key_start key_end limit ret =
     (case ups_cursor_create e (db ctx) of (st, cur, e1) \<Rightarrow>
        (case ups_CheckResultCommand DB_KEYS_COMMAND st of
           Some err \<Rightarrow> (Some err, ret, e1)
         | None \<Rightarrow> ups_keys_loop e1 cur key_start key_end limit ret))"

definition ups_DBkcountImpl :: "ups_env \<Rightarrow> upscaledb \<Rightarrow> (error + nat) \<times> ups_env" where
  "ups_DBkcountImpl e ctx =
     (case ups_db_count e (db ctx) of (st, sz, e1) \<Rightarrow>
        (case ups_CheckResultCommand DB_DBKCOUNT_COMMAND st of
           Some err \<Rightarrow> (Inl err, e1)
         | None \<Rightarrow> (Inr sz, e1)))"

text \<open>
  The loop of \<open>FlushDBImpl\<close>: the status of \<open>ups_db_erase\<close> is not looked at, and there
  is no transaction.
\<close>

function ups_flush_loop :: "ups_env \<Rightarrow> ups_db \<Rightarrow> ups_cursor \<Rightarrow> error option \<times> ups_env" where
  "ups_flush_loop e dbh cur =
     (case ups_cursor_move e cur of (st, key, cur', e1) \<Rightarrow>
        if st = UPS_SUCCESS then
          (case ups_db_erase e1 dbh key of (st2, e2) \<Rightarrow> ups_flush_loop e2 dbh cur')
        else if st \<noteq> 0 \<and> st \<noteq> UPS_KEY_NOT_FOUND then (Some (ErrCommand ''FLUSHDB'' st), e1)
        else (None, e1))"
  by pat_completeness auto
termination
  by (relation "measure (\<lambda>(e, dbh, cur). length cur)")
     (auto simp: ups_cursor_move_def UPS_SUCCESS_def UPS_KEY_NOT_FOUND_def
           split: prod.splits if_splits list.splits)

declare ups_flush_loop.simps [simp del]

definition ups_FlushDBImpl :: "ups_env \<Rightarrow> upscaledb \<Rightarrow> error option \<times> ups_env" where
  "ups_FlushDBImpl e ctx =
     (case ups_cursor_create e (db ctx) of (st, cur, e1) \<Rightarrow>
        (case ups_CheckResultCommand DB_FLUSHDB_COMMAND st of
           Some err \<Rightarrow> (Some err, e1)
         | None \<Rightarrow> ups_flush_loop e1 (db ctx) cur))"

text \<open>
  Modelled from the spec: \<open>DBkcount\<close> of the base class (see \<open>lmdb_DBkcount\<close>).
  \<open>ConvertFromString\<close> for \<open>uint16_t\<close> is a function of the common library; \<open>SelectImpl\<close>
  takes it as \<open>conv\<close>, \<open>None\<close> when the conversion fails.
\<close>

definition ups_DBkcount :: "ups_env \<Rightarrow> upscaledb option \<Rightarrow> (error + nat) \<times> ups_env" where
  "ups_DBkcount e h =
     (case h of
        None \<Rightarrow> (Inl ErrNotConnected, e)
      | Some ctx \<Rightarrow> ups_DBkcountImpl e ctx)"

definition ups_SelectImpl ::
  "(string \<Rightarrow> 16 word option) \<Rightarrow> ups_env \<Rightarrow> upscaledb option \<Rightarrow> string \<Rightarrow>
     (error + DataBaseInfo) \<times> upscaledb option \<times> ups_env" where
  "ups_SelectImpl conv e h name =
     (case conv name of
        None \<Rightarrow> (Inl ErrInval, h, e)
      | Some num \<Rightarrow>
          (case upscaledb_select e h num of (st, h', e1) \<Rightarrow>
             if st \<noteq> UPS_SUCCESS then (Inl (ErrCommand ''SELECT'' st), h', e1)
             else
               (case ups_DBkcount e1 h' of (r, e2) \<Rightarrow>
                  (Inr \<lparr>info_name = name, info_flag = True,
                        info_kcount = (case r of Inl err \<Rightarrow> 0 | Inr kcount \<Rightarrow> kcount)\<rparr>,
                   h', e2))))"

fun ups_DeleteImpl ::
  "ups_env \<Rightarrow> upscaledb \<Rightarrow> string list \<Rightarrow> string list \<Rightarrow> error option \<times> string list \<times> ups_env" where
  "ups_DeleteImpl e ctx [] deleted_keys = (None, deleted_keys, e)"
| "ups_DeleteImpl e ctx (key # keys) deleted_keys =
     (case ups_DelInner e ctx key of
        (Some err, e') \<Rightarrow> ups_DeleteImpl e' ctx keys deleted_keys
      | (None, e') \<Rightarrow> ups_DeleteImpl e' ctx keys (deleted_keys @ [key]))"

definition ups_RenameImpl :: "ups_env \<Rightarrow> upscaledb \<Rightarrow> string \<Rightarrow> string \<Rightarrow> error option \<times> ups_env" where
  "ups_RenameImpl e ctx key new_key =
     (case ups_GetInner e ctx key of
        (Inl err, e1) \<Rightarrow> (Some err, e1)
      | (Inr value_str, e1) \<Rightarrow>
          (case ups_DelInner e1 ctx key of
             (Some err, e2) \<Rightarrow> (Some err, e2)
           | (None, e2) \<Rightarrow>
               (case ups_SetInner e2 ctx new_key value_str of
                  (Some err, e3) \<Rightarrow> (Some err, e3)
                | (None, e3) \<Rightarrow> (None, e3))))"

section \<open>The settings string\<close>

text \<open>
  \<open>ConnectionSettingsFactory\<close>. The settings classes, the enumeration
  \<open>connectionTypes\<close>, \<open>IsRemoteType\<close> and \<open>ConvertFromString\<close> are declared outside the
  sources; what the factory needs of them is the record \<open>build\<close>: which backends the
  program is built with, the number of each enumerator, the object a settings class
  constructs, which types are remote, which settings classes carry SSH information, and
  the conversion of a string to \<open>uint32_t\<close>.
\<close>

datatype connectionTypes =
  REDIS | MEMCACHED | SSDB | LEVELDB | ROCKSDB | UNQLITE | LMDB | UPSCALEDB

record settings =
  s_type :: connectionTypes
  s_path :: string
  s_ms :: "32 word"
  s_cmdline :: string
  s_ssh :: "string option"

record build =
  built :: "connectionTypes \<Rightarrow> bool"
  type_id :: "connectionTypes \<Rightarrow> int"
  init :: "connectionTypes \<Rightarrow> settings"
  IsRemoteType :: "connectionTypes \<Rightarrow> bool"
  is_remote_ssh :: "connectionTypes \<Rightarrow> bool"
  conv_u32 :: "string \<Rightarrow> 32 word"

definition new_settings :: "build \<Rightarrow> connectionTypes \<Rightarrow> string \<Rightarrow> settings" where
  "new_settings b ty conName = (init b ty)\<lparr>s_type := ty, s_path := conName\<rparr>"

definition CreateFromType :: "build \<Rightarrow> int \<Rightarrow> string \<Rightarrow> settings option" where
  "CreateFromType b ty conName =
     (if built b REDIS \<and> ty = type_id b REDIS then Some (new_settings b REDIS conName)
      else if built b MEMCACHED \<and> ty = type_id b MEMCACHED then Some (new_settings b MEMCACHED conName)
      else if built b SSDB \<and> ty = type_id b SSDB then Some (new_settings b SSDB conName)
      else if built b LEVELDB \<and> ty = type_id b LEVELDB then Some (new_settings b LEVELDB conName)
      else if built b ROCKSDB \<and> ty = type_id b ROCKSDB then Some (new_settings b ROCKSDB conName)
      else if built b UNQLITE \<and> ty = type_id b UNQLITE then Some (new_settings b UNQLITE conName)
      else if built b LMDB \<and> ty = type_id b LMDB then Some (new_settings b LMDB conName)
      else if built b UPSCALEDB \<and> ty = type_id b UPSCALEDB then Some (new_settings b UPSCALEDB conName)
      else None)"

text \<open>
  \<open>elText[0] - 48\<close>: the first character as a \<open>char\<close> (signed, as on the platforms the
  program is built for), the terminating zero when \<open>elText\<close> is empty.
\<close>

definition char_int :: "char \<Rightarrow> int" where
  "char_int c = (if of_char c < (128 :: int) then of_char c else of_char c - 256)"

definition crT_of :: "string \<Rightarrow> int" where
  "crT_of elText = (case elText of [] \<Rightarrow> 0 | c # cs \<Rightarrow> char_int c) - 48"

text \<open>
  The loop of \<open>CreateFromString\<close> over the characters from position \<open>i\<close> on:
  \<open>val.substr(i + 1)\<close> is what follows the character at hand. \<open>result\<close> is a pointer,
  null until the first comma.
\<close>

fun from_string_loop ::
  "build \<Rightarrow> string \<Rightarrow> nat \<Rightarrow> string \<Rightarrow> settings option \<Rightarrow> settings option outcome" where
  "from_string_loop b [] commaCount elText result = Returns result"
| "from_string_loop b (ch # rest) commaCount elText result =
     (if ch = CHR '','' then
        (if commaCount = 0 then
           (case CreateFromType b (crT_of elText) [] of
              None \<Rightarrow> Returns None
            | Some r \<Rightarrow> from_string_loop b rest (commaCount + 1) [] (Some r))
         else if commaCount = 1 then
           (case result of
              None \<Rightarrow> NullDeref
            | Some r \<Rightarrow> from_string_loop b rest (commaCount + 1) [] (Some (r\<lparr>s_path := elText\<rparr>)))
         else if commaCount = 2 then
           (case result of
              None \<Rightarrow> NullDeref
            | Some r \<Rightarrow>
                (let r' = r\<lparr>s_ms := conv_u32 b elText\<rparr> in
                 if \<not> IsRemoteType b (s_type r') then Returns (Some (r'\<lparr>s_cmdline := rest\<rparr>))
                 else from_string_loop b rest (commaCount + 1) [] (Some r')))
         else if commaCount = 3 then
           (case result of
              None \<Rightarrow> NullDeref
            | Some r \<Rightarrow>
                (let r' = r\<lparr>s_cmdline := elText\<rparr> in
                 Returns (Some (if is_remote_ssh b (s_type r') then r'\<lparr>s_ssh := Some rest\<rparr> else r'))))
         else from_string_loop b rest (commaCount + 1) [] result)
      else from_string_loop b rest commaCount (elText @ [ch]) result)"

definition CreateFromString :: "build \<Rightarrow> string \<Rightarrow> settings option outcome" where
  "CreateFromString b val = (if val = [] then Returns None else from_string_loop b val 0 [] None)"

section \<open>Functions of the common library, for concrete runs\<close>

text \<open>
  Modelled from the spec: \<open>common::MatchPattern\<close>, which is not among the sources, as
  shell-glob matching: \<open>*\<close> is any run of characters, \<open>?\<close> any single character, any
  other character matches itself. The theorems below hold for every matching function;
  this one runs the concrete examples.
\<close>

fun glob :: "string \<Rightarrow> string \<Rightarrow> bool" where
  "glob [] s = (s = [])"
| "glob (p # ps) [] = (p = CHR ''*'' \<and> glob ps [])"
| "glob (p # ps) (c # cs) =
     (if p = CHR ''*'' then glob ps (c # cs) \<or> glob (p # ps) cs
      else (p = CHR ''?'' \<or> p = c) \<and> glob ps cs)"

definition MatchPattern :: "string \<Rightarrow> string \<Rightarrow> bool" where
  "MatchPattern skey pattern = glob pattern skey"

text \<open>
  Modelled from the spec: \<open>common::ConvertFromString\<close> to \<open>uint16_t\<close>, which is not among
  the sources, as the reading of a decimal 16-bit unsigned integer. The theorems below
  hold for every conversion; this one runs the concrete examples.
\<close>

fun dec_value :: "nat \<Rightarrow> string \<Rightarrow> nat option" where
  "dec_value acc [] = Some acc"
| "dec_value acc (c # cs) =
     (if CHR ''0'' \<le> c \<and> c \<le> CHR ''9''
      then dec_value (10 * acc + (of_char c - 48)) cs
      else None)"

definition ConvertFromString_u16 :: "string \<Rightarrow> 16 word option" where
  "ConvertFromString_u16 s =
     (if s = [] then None
      else (case dec_value 0 s of
              None \<Rightarrow> None
            | Some n \<Rightarrow> if n < 65536 then Some (of_nat n) else None))"

section \<open>The protocol of the specification\<close>

text \<open>
  The skip-count protocol in the words of the specification: a skip counter starts at
  \<open>cursorIn\<close>; every matching key is skipped while the counter is positive and collected
  once it is zero, until \<open>pageSize\<close> matches are collected; then the walk stops and
  \<open>cursorOut = cursorIn + pageSize\<close>. When the keys are exhausted before that,
  \<open>cursorOut = 0\<close>.
\<close>

fun scan_protocol ::
  "(string \<Rightarrow> bool) \<Rightarrow> 64 word \<Rightarrow> 64 word \<Rightarrow> string list \<Rightarrow> 64 word \<Rightarrow> string list \<Rightarrow>
     string list \<times> 64 word" where
  "scan_protocol m cursorIn pageSize [] skip collected =
     (if length collected = unat pageSize then (collected, cursorIn + pageSize) else (collected, 0))"
| "scan_protocol m cursorIn pageSize (k # ks) skip collected =
     (if length collected = unat pageSize then (collected, cursorIn + pageSize)
      else if m k then
        (if skip > 0 then scan_protocol m cursorIn pageSize ks (skip - 1) collected
         else scan_protocol m cursorIn pageSize ks skip (collected @ [k]))
      else scan_protocol m cursorIn pageSize ks skip collected)"

text \<open>
  The pagination of a client: call the scan with the cursor 0, then with each
  \<open>cursorOut\<close>, until a call returns \<open>cursorOut = 0\<close>. The result is the list of the pages
  with their \<open>cursorOut\<close>; \<open>None\<close> when the calls allowed (\<open>fuel\<close>) do not reach the end.
\<close>

fun scan_pages ::
  "('w \<Rightarrow> 64 word \<Rightarrow> (error + string list \<times> 64 word) \<times> 'w) \<Rightarrow> nat \<Rightarrow> 'w \<Rightarrow> 64 word \<Rightarrow>
     (error + (string list \<times> 64 word) list) option" where
  "scan_pages scan 0 w c = None"
| "scan_pages scan (Suc fuel) w c =
     (case scan w c of
        (Inl err, w') \<Rightarrow> Some (Inl err)
      | (Inr (keys, cursorOut), w') \<Rightarrow>
          if cursorOut = 0 then Some (Inr [(keys, cursorOut)])
          else (case scan_pages scan fuel w' cursorOut of
                  None \<Rightarrow> None
                | Some (Inl err) \<Rightarrow> Some (Inl err)
                | Some (Inr pages) \<Rightarrow> Some (Inr ((keys, cursorOut) # pages))))"

text \<open>
  The scan of a connection with its pattern and page size, as the function of the store
  and the cursor that a pagination calls.
\<close>

definition lmdb_Scan ::
  "(string \<Rightarrow> string \<Rightarrow> bool) \<Rightarrow> lmdb \<Rightarrow> string \<Rightarrow> 64 word \<Rightarrow> MDB_env \<Rightarrow> 64 word \<Rightarrow>
     (error + string list \<times> 64 word) \<times> MDB_env" where
  "lmdb_Scan mp ctx pattern count_keys = (\<lambda>e c. lmdb_ScanImpl mp e ctx c pattern count_keys)"

definition ups_Scan ::
  "(string \<Rightarrow> string \<Rightarrow> bool) \<Rightarrow> upscaledb \<Rightarrow> string \<Rightarrow> 64 word \<Rightarrow> ups_env \<Rightarrow> 64 word \<Rightarrow>
     (error + string list \<times> 64 word) \<times> ups_env" where
  "ups_Scan mp ctx pattern count_keys = (\<lambda>e c. ups_ScanImpl mp e ctx c pattern count_keys)"

text \<open>The number of pages the specification states for \<open>M\<close> matches and page size \<open>s\<close>.\<close>

definition ceiling_pages :: "nat \<Rightarrow> nat \<Rightarrow> nat" where
  "ceiling_pages M s = (M + s - 1) div s"

text \<open>
  A pagination \<open>run\<close> (the pages as a function of the calls allowed) enumerates \<open>ms\<close> in
  \<open>n\<close> pages: with \<open>n\<close> calls or more it ends, the pages are the same whatever the number
  of calls, they are \<open>n\<close>, their keys in sequence are exactly \<open>ms\<close>, and the last
  \<open>cursorOut\<close> is 0.
\<close>

definition paginates ::
  "(nat \<Rightarrow> (error + (string list \<times> 64 word) list) option) \<Rightarrow> string list \<Rightarrow> nat \<Rightarrow> bool" where
  "paginates run ms n \<longleftrightarrow>
     (\<exists>pages. (\<forall>fuel. n \<le> fuel \<longrightarrow> run fuel = Some (Inr pages)) \<and>
        length pages = n \<and> concat (map fst pages) = ms \<and> snd (last pages) = 0)"

text \<open>
  Page \<open>j\<close> of a pagination with page size \<open>s\<close> over the matches \<open>ms\<close>, when the scan
  goes on as long as the next cursor is at most \<open>L\<close>.
\<close>

definition page_at :: "string list \<Rightarrow> nat \<Rightarrow> nat \<Rightarrow> nat \<Rightarrow> string list \<times> 64 word" where
  "page_at ms s L j =
     (take s (drop (j * s) ms), if (j + 1) * s \<le> L then of_nat ((j + 1) * s) else 0)"

section \<open>A concrete store\<close>

text \<open>
  The scenario of the specification, with a third key: one table with the keys
  \<open>foo\<close>, \<open>foo2\<close> and \<open>zap\<close>, as the database \<open>main\<close> of an LMDB environment and as the
  database 1 of an upscaledb environment, both selected.
\<close>

definition ex_table :: table where
  "ex_table = [(''foo'', ''bar''), (''foo2'', ''baz''), (''zap'', ''1'')]"

definition ex_env :: MDB_env where
  "ex_env = \<lparr>dbs = [''main'' \<mapsto> ex_table], faults = [], trace = []\<rparr>"

definition ex_ctx :: lmdb where
  "ex_ctx = \<lparr>dbir = Some ''main'', db_name = Some ''main''\<rparr>"

definition ex_conf :: lmdb_config where
  "ex_conf = \<lparr>cfg_db_name = ''main'', cfg_env_flags = 0\<rparr>"

definition ex_conn :: lmdb_connection where
  "ex_conn = \<lparr>handle = Some ex_ctx, config = ex_conf\<rparr>"

definition ex_uenv :: ups_env where
  "ex_uenv = \<lparr>udbs = [1 \<mapsto> ex_table], ufaults = [], utrace = []\<rparr>"

definition ex_uctx :: upscaledb where
  "ex_uctx = \<lparr>db = Some 1, cur_db = 1\<rparr>"

text \<open>
  A concrete build for the settings string: every backend built in, the enumerators
  numbered in the order in which \<open>CreateFromType\<close> tests them, the three server backends
  remote and Redis the one with SSH information, fresh settings empty, and the logging
  interval read as a decimal number (0 when it is none).
\<close>

definition ex_build :: build where
  "ex_build =
     \<lparr>built = (\<lambda>ty. True),
      type_id = (\<lambda>ty. case ty of REDIS \<Rightarrow> 0 | MEMCACHED \<Rightarrow> 1 | SSDB \<Rightarrow> 2 | LEVELDB \<Rightarrow> 3
                 | ROCKSDB \<Rightarrow> 4 | UNQLITE \<Rightarrow> 5 | LMDB \<Rightarrow> 6 | UPSCALEDB \<Rightarrow> 7),
      init = (\<lambda>ty. \<lparr>s_type = ty, s_path = [], s_ms = 0, s_cmdline = [], s_ssh = None\<rparr>),
      IsRemoteType = (\<lambda>ty. ty = REDIS \<or> ty = MEMCACHED \<or> ty = SSDB),
      is_remote_ssh = (\<lambda>ty. ty = REDIS),
      conv_u32 = (\<lambda>s. case dec_value 0 s of None \<Rightarrow> 0 | Some n \<Rightarrow> of_nat n)\<rparr>"

text \<open>
  The same stores when the library is going to fail: the LMDB environment whose fourth
  call (the first \<open>mdb_del\<close> of a flush) reports the status 7, the one whose fifth call
  (the second \<open>mdb_cursor_get\<close> of a flush) does, and the upscaledb environment whose
  third call (the first \<open>ups_db_erase\<close> of a flush) does.
\<close>

definition ex_env_del_fails :: MDB_env where
  "ex_env_del_fails = ex_env\<lparr>faults := [0, 0, 0, 7]\<rparr>"

definition ex_env_cursor_fails :: MDB_env where
  "ex_env_cursor_fails = ex_env\<lparr>faults := [0, 0, 0, 0, 7]\<rparr>"

definition ex_uenv_erase_fails :: ups_env where
  "ex_uenv_erase_fails = ex_uenv\<lparr>ufaults := [0, 0, 7]\<rparr>"

text \<open>
  The LMDB environment whose second call (the \<open>mdb_dbi_open\<close> of a select) reports the
  status 7, and the one whose third call (the \<open>mdb_txn_commit\<close> of a select) does.
\<close>

definition ex_env_open_fails :: MDB_env where
  "ex_env_open_fails = ex_env\<lparr>faults := [0, 7]\<rparr>"

definition ex_env_commit_fails :: MDB_env where
  "ex_env_commit_fails = ex_env\<lparr>faults := [0, 0, 7]\<rparr>"

section \<open>Calls of the libraries that do not fail\<close>

lemma mdb_status_nofault: "faults e = [] \<Longrightarrow> mdb_status e = (0, e)"
  by (simp add: mdb_status_def)

lemma mdb_log_simps [simp]:
  "faults (mdb_log ev e) = faults e" "dbs (mdb_log ev e) = dbs e"
  "trace (mdb_log ev e) = trace e @ [ev]"
  by (simp_all add: mdb_log_def)

lemma mdb_txn_begin_nofault:
  "faults e = [] \<Longrightarrow>
   mdb_txn_begin e fl = (0, \<lparr>txn_dbs = dbs e, txn_rdonly = (fl AND MDB_RDONLY \<noteq> 0)\<rparr>, mdb_log TxnBegin e)"
  by (simp add: mdb_txn_begin_def mdb_status_nofault)

lemma mdb_cursor_open_nofault:
  "faults e = [] \<Longrightarrow> txn_dbs txn n = Some t \<Longrightarrow>
   mdb_cursor_open e txn (Some n) = (0, map fst t, e)"
  by (simp add: mdb_cursor_open_def mdb_status_nofault dbi_table_def)

lemma mdb_cursor_get_Nil: "faults e = [] \<Longrightarrow> mdb_cursor_get e [] = (MDB_NOTFOUND, [], [], e)"
  by (simp add: mdb_cursor_get_def mdb_status_nofault)

lemma mdb_cursor_get_Cons: "faults e = [] \<Longrightarrow> mdb_cursor_get e (k # ks) = (0, k, ks, e)"
  by (simp add: mdb_cursor_get_def mdb_status_nofault)

lemma ups_status_nofault: "ufaults e = [] \<Longrightarrow> ups_status e = (0, e)"
  by (simp add: ups_status_def)

lemma ups_cursor_create_nofault:
  "ufaults e = [] \<Longrightarrow> udbs e n = Some t \<Longrightarrow> ups_cursor_create e (Some n) = (0, map fst t, e)"
  by (simp add: ups_cursor_create_def ups_status_nofault ups_db_table_def)

lemma ups_cursor_move_Nil: "ufaults e = [] \<Longrightarrow> ups_cursor_move e [] = (UPS_KEY_NOT_FOUND, [], [], e)"
  by (simp add: ups_cursor_move_def ups_status_nofault)

lemma ups_cursor_move_Cons: "ufaults e = [] \<Longrightarrow> ups_cursor_move e (k # ks) = (0, k, ks, e)"
  by (simp add: ups_cursor_move_def ups_status_nofault)

section \<open>Scan\<close>

lemma unat_pred: "(off :: 64 word) \<noteq> 0 \<Longrightarrow> unat (off - 1) = unat off - 1 \<and> 0 < unat off"
  by (simp add: unat_minus_one unat_gt_0)

lemma scan_protocol_closed:
  "length coll \<le> unat n \<Longrightarrow>
   scan_protocol m cin n ks skip coll =
     (coll @ take (unat n - length coll) (drop (unat skip) (filter m ks)),
      if unat n - length coll \<le> length (drop (unat skip) (filter m ks)) then cin + n else 0)"
proof (induction ks arbitrary: skip coll)
  case Nil
  then show ?case by auto
next
  case (Cons k ks)
  show ?case
  proof (cases "length coll = unat n")
    case True
    then show ?thesis by simp
  next
    case False
    with Cons.prems have room: "length coll < unat n" by simp
    show ?thesis
    proof (cases "m k")
      case False
      with room Cons.IH [of coll skip] show ?thesis by simp
    next
      case hit: True
      show ?thesis
      proof (cases "skip = 0")
        case True
        with room hit Cons.IH [of "coll @ [k]" skip] show ?thesis
          by (auto simp: take_Cons')
      next
        case False
        with unat_pred [of skip] have "unat (skip - 1) = unat skip - 1" "0 < unat skip" "0 < skip"
          by (simp_all add: word_neq_0_conv)
        with False room hit Cons.IH [of coll "skip - 1"] show ?thesis
          by (auto simp: drop_Cons')
      qed
    qed
  qed
qed

lemma lmdb_scan_loop_nofault:
  "faults e = [] \<Longrightarrow>
   lmdb_scan_loop mp e ks cin pat n off out =
     (out @ take (unat n - length out) (drop (unat off) (filter (\<lambda>k. mp k pat) ks)),
      (if ks \<noteq> [] \<and> unat n - length out \<le> length (drop (unat off) (filter (\<lambda>k. mp k pat) (butlast ks)))
       then cin + n else 0),
      e)"
proof (induction ks arbitrary: off out)
  case Nil
  then show ?case
    by (subst lmdb_scan_loop.simps) (simp add: mdb_cursor_get_Nil MDB_NOTFOUND_def LMDB_OK_def)
next
  case (Cons k ks)
  note nf = Cons.prems
  note step = lmdb_scan_loop.simps [of mp e "k # ks" cin pat n off out]
  show ?case
  proof (cases "length out < unat n")
    case False
    then show ?thesis
      by (simp add: step mdb_cursor_get_Cons [OF nf] LMDB_OK_def)
  next
    case room: True
    show ?thesis
    proof (cases "mp k pat")
      case False
      with room show ?thesis
        by (simp add: step mdb_cursor_get_Cons [OF nf] LMDB_OK_def Cons.IH [OF nf])
    next
      case hit: True
      show ?thesis
      proof (cases "off = 0")
        case True
        with room hit show ?thesis
          by (subst step)
             (auto simp: mdb_cursor_get_Cons [OF nf] LMDB_OK_def Cons.IH [OF nf] take_Cons')
      next
        case False
        with unat_pred [of off] have "unat (off - 1) = unat off - 1" and "0 < unat off"
          by simp_all
        with False room hit show ?thesis
          by (subst step)
             (auto simp: mdb_cursor_get_Cons [OF nf] LMDB_OK_def Cons.IH [OF nf] drop_Cons')
      qed
    qed
  qed
qed

lemma ups_scan_loop_nofault:
  "ufaults e = [] \<Longrightarrow> length out \<le> unat n \<Longrightarrow>
   ups_scan_loop mp e ks cin pat n off out = (Inr (scan_protocol (\<lambda>k. mp k pat) cin n ks off out), e)"
proof (induction ks arbitrary: off out)
  case Nil
  then show ?case
    by (subst ups_scan_loop.simps)
       (auto simp: ups_cursor_move_Nil UPS_KEY_NOT_FOUND_def UPS_SUCCESS_def)
next
  case (Cons k ks)
  note nf = Cons.prems(1)
  note step = ups_scan_loop.simps [of mp e "k # ks" cin pat n off out]
  show ?case
  proof (cases "length out < unat n")
    case False
    with Cons.prems show ?thesis by (simp add: step)
  next
    case room: True
    then have le: "length (out @ [k]) \<le> unat n" by simp
    from room show ?thesis
      by (subst step)
         (auto simp: ups_cursor_move_Cons [OF nf] UPS_SUCCESS_def Cons.IH [OF nf le]
                     Cons.IH [OF nf Cons.prems(2)] word_neq_0_conv)
  qed
qed

lemma lmdb_ScanImpl_nofault:
  assumes "faults e = []" and "dbir ctx = Some n" and "dbs e n = Some t"
  shows "lmdb_ScanImpl mp e ctx cin pat cnt =
       (Inr (take (unat cnt) (drop (unat cin) (filter (\<lambda>k. mp k pat) (map fst t))),
             if t \<noteq> [] \<and>
                unat cnt \<le> length (drop (unat cin) (filter (\<lambda>k. mp k pat) (butlast (map fst t))))
             then cin + cnt else 0),
        e\<lparr>trace := trace e @ [TxnBegin, TxnAbort]\<rparr>)"
  using assms
  by (simp add: lmdb_ScanImpl_def mdb_txn_begin_nofault lmdb_CheckResultCommand_def LMDB_OK_def
        mdb_cursor_open_nofault lmdb_scan_loop_nofault)
     (simp add: mdb_txn_abort_def mdb_log_def)

lemma ups_ScanImpl_nofault:
  assumes "ufaults u = []" and "db uctx = Some num" and "udbs u num = Some t"
  shows "ups_ScanImpl mp u uctx cin pat cnt =
       (Inr (take (unat cnt) (drop (unat cin) (filter (\<lambda>k. mp k pat) (map fst t))),
             if unat cnt \<le> length (drop (unat cin) (filter (\<lambda>k. mp k pat) (map fst t)))
             then cin + cnt else 0),
        u)"
  using assms
  by (simp add: ups_ScanImpl_def ups_cursor_create_nofault ups_CheckResultCommand_def
        UPS_SUCCESS_def ups_scan_loop_nofault scan_protocol_closed)

text \<open>
  C1, amended. On a store whose calls do not fail, one call of \<open>Scan\<close> returns, on both
  backends, the keys of the skip-count protocol of the specification: the matches after
  the first \<open>cursorIn\<close> ones, up to \<open>pageSize\<close> of them, in the order of the table. On
  upscaledb \<open>cursorOut\<close> is the protocol's too: \<open>cursorIn + pageSize\<close> (in 64 bits) when
  \<open>pageSize\<close> matches were collected, 0 otherwise. On LMDB \<open>cursorOut\<close> is
  \<open>cursorIn + pageSize\<close> only when \<open>pageSize\<close> matches were collected and a further key of
  the table, matching or not, is left behind the last of them; it is 0 otherwise. The
  LMDB transaction is aborted, never committed.
\<close>

theorem scan_single_call:
  assumes "faults e = []" and "dbir ctx = Some n" and "dbs e n = Some t"
    and "ufaults u = []" and "db uctx = Some num" and "udbs u num = Some t'"
  shows
    "lmdb_ScanImpl mp e ctx cursorIn pat pageSize =
       (Inr (fst (scan_protocol (\<lambda>k. mp k pat) cursorIn pageSize (map fst t) cursorIn []),
             if t \<noteq> [] \<and>
                unat pageSize \<le>
                  length (drop (unat cursorIn) (filter (\<lambda>k. mp k pat) (butlast (map fst t))))
             then cursorIn + pageSize else 0),
        e\<lparr>trace := trace e @ [TxnBegin, TxnAbort]\<rparr>) \<and>
     ups_ScanImpl mp u uctx cursorIn pat pageSize =
       (Inr (scan_protocol (\<lambda>k. mp k pat) cursorIn pageSize (map fst t') cursorIn []), u)"
  using lmdb_ScanImpl_nofault [OF assms(1-3)] ups_ScanImpl_nofault [OF assms(4-6)]
  by (simp add: scan_protocol_closed)

lemmas ex_defs = ex_table_def ex_env_def ex_ctx_def ex_conf_def ex_conn_def ex_uenv_def ex_uctx_def

theorem scan_single_call_witness:
  "faults ex_env = [] \<and> dbir ex_ctx = Some ''main'' \<and> dbs ex_env ''main'' = Some ex_table \<and>
   ufaults ex_uenv = [] \<and> db ex_uctx = Some 1 \<and> udbs ex_uenv 1 = Some ex_table \<and>
   lmdb_ScanImpl MatchPattern ex_env ex_ctx 0 ''foo*'' 10 =
     (Inr ([''foo'', ''foo2''], 0), ex_env\<lparr>trace := [TxnBegin, TxnAbort]\<rparr>) \<and>
   ups_ScanImpl MatchPattern ex_uenv ex_uctx 0 ''foo*'' 10 = (Inr ([''foo'', ''foo2''], 0), ex_uenv)"
  using scan_single_call [of ex_env ex_ctx "''main''" ex_table ex_uenv ex_uctx 1 ex_table
      MatchPattern 0 "''foo*''" 10]
  by (simp add: ex_defs MatchPattern_def)

text \<open>
  C1 as stated fails: when the match that fills the page is the last key of the table,
  LMDB returns \<open>cursorOut = 0\<close> where the protocol, and upscaledb, give
  \<open>cursorIn + pageSize\<close>.
\<close>

theorem scan_single_call_counterexample:
  "fst (lmdb_ScanImpl MatchPattern ex_env ex_ctx 0 ''*'' 3) \<noteq>
     Inr (scan_protocol (glob ''*'') 0 3 (map fst ex_table) 0 []) \<and>
   fst (lmdb_ScanImpl MatchPattern ex_env ex_ctx 0 ''*'' 3) = Inr ([''foo'', ''foo2'', ''zap''], 0) \<and>
   fst (ups_ScanImpl MatchPattern ex_uenv ex_uctx 0 ''*'' 3) = Inr ([''foo'', ''foo2'', ''zap''], 3) \<and>
   scan_protocol (glob ''*'') 0 3 (map fst ex_table) 0 [] = ([''foo'', ''foo2'', ''zap''], 3)"
  by code_simp

section \<open>Pagination\<close>

lemma concat_chunks:
  "concat (map (\<lambda>j. take s (drop (j * s) xs)) [0..<n]) = take (n * s) xs"
proof (induction n)
  case 0
  then show ?case by simp
next
  case (Suc n)
  have "take (n * s + s) xs = take (n * s) xs @ take s (drop (n * s) xs)"
    by (rule take_add)
  moreover have "Suc n * s = n * s + s" by simp
  ultimately have "take (Suc n * s) xs = take (n * s) xs @ take s (drop (n * s) xs)"
    by metis
  with Suc show ?case by simp
qed

lemma scan_pages_generic:
  fixes scan :: "'w \<Rightarrow> 64 word \<Rightarrow> (error + string list \<times> 64 word) \<times> 'w"
  assumes step: "\<And>w i. P w \<Longrightarrow> i \<le> L div s \<Longrightarrow> \<exists>w'. scan w (of_nat (i * s)) = (Inr (page_at ms s L i), w') \<and> P w'"
    and s: "0 < s" and L: "L < 2 ^ 64"
  shows "P w \<Longrightarrow> i \<le> L div s \<Longrightarrow> L div s - i < fuel \<Longrightarrow>
         scan_pages scan fuel w (of_nat (i * s)) = Some (Inr (map (page_at ms s L) [i..<L div s + 1]))"
proof (induction fuel arbitrary: w i)
  case 0
  then show ?case by simp
next
  case (Suc fuel)
  from step [OF Suc.prems(1,2)] obtain w' where
    sc: "scan w (of_nat (i * s)) = (Inr (page_at ms s L i), w')" and P': "P w'" by blast
  show ?case
  proof (cases "(i + 1) * s \<le> L")
    case True
    then have lt: "i + 1 \<le> L div s"
      using s by (simp add: less_eq_div_iff_mult_less_eq)
    from True L have b: "(i + 1) * s < 2 ^ LENGTH(64)" by simp
    have pos: "0 < (i + 1) * s" using s by simp
    have nz: "(of_nat ((i + 1) * s) :: 64 word) \<noteq> 0"
      by (rule of_nat_neq_0 [OF pos b])
    have "L div s - (i + 1) < fuel" using Suc.prems(3) lt by simp
    from Suc.IH [OF P' lt this]
    have rest: "scan_pages scan fuel w' (of_nat ((i + 1) * s)) =
        Some (Inr (map (page_at ms s L) [i + 1..<L div s + 1]))" .
    have "[i..<L div s + 1] = i # [i + 1..<L div s + 1]"
      using lt by (simp add: upt_conv_Cons)
    with True nz rest sc show ?thesis
      by (simp add: page_at_def)
  next
    case False
    then have "\<not> i + 1 \<le> L div s"
      using s by (simp add: less_eq_div_iff_mult_less_eq)
    with Suc.prems(2) have "i = L div s" by simp
    with False sc show ?thesis
      by (simp add: page_at_def)
  qed
qed

lemma pages_facts:
  assumes s: "0 < s" and L: "L \<le> length ms" and M: "length ms \<le> L + 1"
  shows "concat (map fst (map (page_at ms s L) [0..<L div s + 1])) = ms"
    and "length (map (page_at ms s L) [0..<L div s + 1]) = L div s + 1"
    and "snd (last (map (page_at ms s L) [0..<L div s + 1])) = 0"
proof -
  have "L < (L div s + 1) * s"
    using dividend_less_div_times [OF s, of L] by simp
  then have big: "length ms \<le> (L div s + 1) * s" using M by simp
  have "map fst (map (page_at ms s L) [0..<L div s + 1]) =
        map (\<lambda>j. take s (drop (j * s) ms)) [0..<L div s + 1]"
    by (simp add: page_at_def)
  then show "concat (map fst (map (page_at ms s L) [0..<L div s + 1])) = ms"
    using big by (simp only: concat_chunks) simp
  show "length (map (page_at ms s L) [0..<L div s + 1]) = L div s + 1" by simp
  have "\<not> (L div s + 1) * s \<le> L" using \<open>L < (L div s + 1) * s\<close> by simp
  then show "snd (last (map (page_at ms s L) [0..<L div s + 1])) = 0"
    by (simp add: page_at_def last_map)
qed


lemma ceiling_aux:
  fixes s r q :: nat
  assumes s: "0 < s" and r: "r < s"
  shows "(q * s + r + s - 1) div s = q + (if r = 0 then 0 else 1)"
proof (cases "r = 0")
  case True
  have ne: "s \<noteq> 0" using s by simp
  have "(s - 1 + q * s) div s = q + (s - 1) div s"
    by (rule div_mult_self1 [OF ne])
  moreover have "(s - 1) div s = 0" using s by simp
  moreover have "q * s + r + s - 1 = s - 1 + q * s" using True s by simp
  ultimately show ?thesis using True by simp
next
  case False
  have ne: "s \<noteq> 0" using s by simp
  have "(r - 1 + (q + 1) * s) div s = (q + 1) + (r - 1) div s"
    by (rule div_mult_self1 [OF ne])
  moreover have "(r - 1) div s = 0" using r by simp
  moreover have "q * s + r + s - 1 = r - 1 + (q + 1) * s" using False by simp
  ultimately show ?thesis using False by simp
qed
lemma count_ceiling_dvd:
  assumes s: "0 < s"
  shows "M div s + 1 = ceiling_pages M s + (if s dvd M then 1 else 0)"
proof -
  have "M mod s < s" using s by simp
  from ceiling_aux [OF s this, of "M div s"]
  have "(M + s - 1) div s = M div s + (if M mod s = 0 then 0 else 1)"
    by (simp only: div_mult_mod_eq)
  then show ?thesis
    by (simp add: ceiling_pages_def dvd_eq_mod_eq_0)
qed
lemma count_ceiling_pred:
  assumes s: "0 < s" and M: "0 < M"
  shows "(M - 1) div s + 1 = ceiling_pages M s"
proof -
  from M have "M + s - 1 = (M - 1) + s" by simp
  then have "(M + s - 1) div s = ((M - 1) + s) div s" by (rule arg_cong)
  also have "\<dots> = (M - 1) div s + 1" using div_add_self2 [of s "M - 1"] s by simp
  finally show ?thesis by (simp only: ceiling_pages_def)
qed

lemma page_cursor:
  fixes cnt :: "64 word"
  assumes le: "i * unat cnt \<le> L" and L: "L < 2 ^ 64"
  shows "unat (of_nat (i * unat cnt) :: 64 word) = i * unat cnt"
    and "(of_nat (i * unat cnt) :: 64 word) + cnt = of_nat ((i + 1) * unat cnt)"
proof -
  from le L have b: "i * unat cnt < 2 ^ LENGTH(64)" by simp
  show "unat (of_nat (i * unat cnt) :: 64 word) = i * unat cnt"
    by (rule of_nat_inverse [OF refl b])
  show "(of_nat (i * unat cnt) :: 64 word) + cnt = of_nat ((i + 1) * unat cnt)"
    by simp
qed

lemma lmdb_scan_step:
  assumes "faults e = []" and "dbir ctx = Some n" and "dbs e n = Some t"
    and cnt: "cnt \<noteq> 0" and len: "length t < 2 ^ 64"
    and i: "i \<le> length (filter (\<lambda>k. mp k pat) (butlast (map fst t))) div unat cnt"
  shows "\<exists>e'. lmdb_ScanImpl mp e ctx (of_nat (i * unat cnt)) pat cnt =
            (Inr (page_at (filter (\<lambda>k. mp k pat) (map fst t)) (unat cnt)
                    (length (filter (\<lambda>k. mp k pat) (butlast (map fst t)))) i), e') \<and>
          faults e' = [] \<and> dbs e' n = Some t"
proof -
  let ?L = "length (filter (\<lambda>k. mp k pat) (butlast (map fst t)))"
  have s: "0 < unat cnt" using cnt by (simp add: unat_gt_0)
  have "?L \<le> length (butlast (map fst t))" by (rule length_filter_le)
  also have "\<dots> \<le> length t" by simp
  finally have L: "?L < 2 ^ 64" using len by (rule le_less_trans)
  from i s have le: "i * unat cnt \<le> ?L"
    by (simp add: less_eq_div_iff_mult_less_eq)
  have empty: "t = [] \<Longrightarrow> ?L = 0" by simp
  have cond: "(t \<noteq> [] \<and> unat cnt \<le> ?L - i * unat cnt) \<longleftrightarrow> (i + 1) * unat cnt \<le> ?L"
    using s le empty by (cases "t = []") auto
  show ?thesis
    using assms(1-3) cond page_cursor [OF le L]
    by (simp add: lmdb_ScanImpl_nofault page_at_def)
qed

lemma ups_scan_step:
  assumes "ufaults u = []" and "db uctx = Some num" and "udbs u num = Some t"
    and cnt: "cnt \<noteq> 0" and len: "length t < 2 ^ 64"
    and i: "i \<le> length (filter (\<lambda>k. mp k pat) (map fst t)) div unat cnt"
  shows "\<exists>u'. ups_ScanImpl mp u uctx (of_nat (i * unat cnt)) pat cnt =
            (Inr (page_at (filter (\<lambda>k. mp k pat) (map fst t)) (unat cnt)
                    (length (filter (\<lambda>k. mp k pat) (map fst t))) i), u') \<and>
          ufaults u' = [] \<and> udbs u' num = Some t"
proof -
  let ?L = "length (filter (\<lambda>k. mp k pat) (map fst t))"
  have s: "0 < unat cnt" using cnt by (simp add: unat_gt_0)
  have "?L \<le> length (map fst t)" by (rule length_filter_le)
  also have "\<dots> = length t" by simp
  finally have L: "?L < 2 ^ 64" using len by (rule le_less_trans)
  from i s have le: "i * unat cnt \<le> ?L"
    by (simp add: less_eq_div_iff_mult_less_eq)
  have cond: "unat cnt \<le> ?L - i * unat cnt \<longleftrightarrow> (i + 1) * unat cnt \<le> ?L"
    using s le by auto
  show ?thesis
    using assms(1-3) cond page_cursor [OF le L]
    by (simp add: ups_ScanImpl_nofault page_at_def)
qed

lemma paginatesI:
  fixes scan :: "'w \<Rightarrow> 64 word \<Rightarrow> (error + string list \<times> 64 word) \<times> 'w"
  assumes step: "\<And>w i. P w \<Longrightarrow> i \<le> L div s \<Longrightarrow>
        \<exists>w'. scan w (of_nat (i * s)) = (Inr (page_at ms s L i), w') \<and> P w'"
    and s: "0 < s" and L: "L < 2 ^ 64" and le: "L \<le> length ms" and ge: "length ms \<le> L + 1"
    and P: "P w"
  shows "paginates (\<lambda>fuel. scan_pages scan fuel w 0) ms (L div s + 1)"
proof -
  let ?pages = "map (page_at ms s L) [0..<L div s + 1]"
  have "scan_pages scan fuel w 0 = Some (Inr ?pages)" if "L div s + 1 \<le> fuel" for fuel
  proof -
    from that have "L div s - 0 < fuel" by simp
    from scan_pages_generic [where P = P and scan = scan and i = 0 and fuel = fuel,
        OF step s L P _ this]
    show ?thesis by simp
  qed
  with pages_facts [OF s le ge] show ?thesis
    unfolding paginates_def by blast
qed

lemma filter_butlast_length:
  "length (filter m ks) =
     length (filter m (butlast ks)) + (if ks \<noteq> [] \<and> m (last ks) then 1 else 0)"
proof (cases "ks = []")
  case True
  then show ?thesis by simp
next
  case False
  then have "filter m ks = filter m (butlast ks @ [last ks])" by simp
  then show ?thesis using False by (simp only: filter_append) simp
qed

text \<open>
  C2, amended. On a table with fewer than \<open>2 ^ 64\<close> keys whose calls do not fail, and for a
  page size \<open>s > 0\<close>, calling \<open>Scan\<close> from the cursor 0 and feeding each \<open>cursorOut\<close> to the
  next call ends with \<open>cursorOut = 0\<close>, and the pages in sequence are exactly the \<open>M\<close>
  matching keys in the order of the table: none twice, none left out. The number of
  pages is the ceiling of \<open>M / s\<close> when \<open>s\<close> does not divide \<open>M\<close>. When \<open>s\<close> divides \<open>M\<close>
  (also for \<open>M = 0\<close>) upscaledb uses one page more, which is empty; LMDB uses that extra
  page too, unless the last key of the table is a match.
\<close>

theorem scan_pagination:
  assumes "faults e = []" and "dbir ctx = Some n" and "dbs e n = Some t" and "length t < 2 ^ 64"
    and "ufaults u = []" and "db uctx = Some num" and "udbs u num = Some t'"
    and "length t' < 2 ^ 64"
    and "pageSize \<noteq> 0"
  shows
    "paginates (\<lambda>fuel. scan_pages (lmdb_Scan mp ctx pat pageSize) fuel e 0)
       (filter (\<lambda>k. mp k pat) (map fst t))
       (if t \<noteq> [] \<and> mp (fst (last t)) pat
        then ceiling_pages (length (filter (\<lambda>k. mp k pat) (map fst t))) (unat pageSize)
        else ceiling_pages (length (filter (\<lambda>k. mp k pat) (map fst t))) (unat pageSize) +
             (if unat pageSize dvd length (filter (\<lambda>k. mp k pat) (map fst t)) then 1 else 0)) \<and>
     paginates (\<lambda>fuel. scan_pages (ups_Scan mp uctx pat pageSize) fuel u 0)
       (filter (\<lambda>k. mp k pat) (map fst t'))
       (ceiling_pages (length (filter (\<lambda>k. mp k pat) (map fst t'))) (unat pageSize) +
        (if unat pageSize dvd length (filter (\<lambda>k. mp k pat) (map fst t')) then 1 else 0))"
  unfolding lmdb_Scan_def ups_Scan_def
proof
  let ?m = "\<lambda>k. mp k pat"
  let ?s = "unat pageSize"
  have s: "0 < ?s" using assms(9) by (simp add: unat_gt_0)
  show "paginates (\<lambda>fuel. scan_pages (\<lambda>e c. lmdb_ScanImpl mp e ctx c pat pageSize) fuel e 0)
       (filter ?m (map fst t))
       (if t \<noteq> [] \<and> mp (fst (last t)) pat
        then ceiling_pages (length (filter ?m (map fst t))) ?s
        else ceiling_pages (length (filter ?m (map fst t))) ?s +
             (if ?s dvd length (filter ?m (map fst t)) then 1 else 0))"
  proof -
    let ?ms = "filter ?m (map fst t)"
    let ?L = "length (filter ?m (butlast (map fst t)))"
    have M: "length ?ms = ?L + (if t \<noteq> [] \<and> mp (fst (last t)) pat then 1 else 0)"
    proof (cases "t = []")
      case True
      then show ?thesis by simp
    next
      case False
      then have "last (map fst t) = fst (last t)" by (rule last_map)
      with False filter_butlast_length [of ?m "map fst t"] show ?thesis by simp
    qed
    have "?L \<le> length (butlast (map fst t))" by (rule length_filter_le)
    also have "\<dots> \<le> length t" by simp
    finally have L: "?L < 2 ^ 64" using assms(4) by (rule le_less_trans)
    have run: "paginates (\<lambda>fuel. scan_pages (\<lambda>e c. lmdb_ScanImpl mp e ctx c pat pageSize) fuel e 0)
        ?ms (?L div ?s + 1)"
    proof (rule paginatesI [where P = "\<lambda>e :: MDB_env. faults e = [] \<and> dbs e n = Some t"])
      fix w :: MDB_env and i
      assume "faults w = [] \<and> dbs w n = Some t" and "i \<le> ?L div ?s"
      then show "\<exists>w'. lmdb_ScanImpl mp w ctx (of_nat (i * ?s)) pat pageSize =
          (Inr (page_at ?ms ?s ?L i), w') \<and> faults w' = [] \<and> dbs w' n = Some t"
        using lmdb_scan_step [of w ctx n t pageSize i mp pat] assms(2,4,9) by blast
    qed (use s L M assms(1,3) in simp_all)
    have "?L div ?s + 1 =
      (if t \<noteq> [] \<and> mp (fst (last t)) pat then ceiling_pages (length ?ms) ?s
       else ceiling_pages (length ?ms) ?s + (if ?s dvd length ?ms then 1 else 0))"
    proof (cases "t \<noteq> [] \<and> mp (fst (last t)) pat")
      case True
      with M have L1: "?L = length ?ms - 1" and pos: "0 < length ?ms" by simp_all
      have "?L div ?s + 1 = ceiling_pages (length ?ms) ?s"
        using count_ceiling_pred [OF s pos] by (simp only: L1)
      with True show ?thesis by simp
    next
      case False
      with M have L0: "?L = length ?ms" by simp
      have "?L div ?s + 1 =
          ceiling_pages (length ?ms) ?s + (if ?s dvd length ?ms then 1 else 0)"
        using count_ceiling_dvd [OF s, of "length ?ms"] by (simp only: L0)
      with False show ?thesis by simp
    qed
    with run show ?thesis by (simp only:)
  qed
  show "paginates (\<lambda>fuel. scan_pages (\<lambda>u c. ups_ScanImpl mp u uctx c pat pageSize) fuel u 0)
       (filter ?m (map fst t'))
       (ceiling_pages (length (filter ?m (map fst t'))) ?s +
        (if ?s dvd length (filter ?m (map fst t')) then 1 else 0))"
  proof -
    let ?ms = "filter ?m (map fst t')"
    have "length ?ms \<le> length (map fst t')" by (rule length_filter_le)
    also have "\<dots> = length t'" by simp
    finally have L: "length ?ms < 2 ^ 64" using assms(8) by (rule le_less_trans)
    have run: "paginates (\<lambda>fuel. scan_pages (\<lambda>u c. ups_ScanImpl mp u uctx c pat pageSize) fuel u 0)
        ?ms (length ?ms div ?s + 1)"
    proof (rule paginatesI [where P = "\<lambda>u :: ups_env. ufaults u = [] \<and> udbs u num = Some t'"])
      fix w :: ups_env and i
      assume "ufaults w = [] \<and> udbs w num = Some t'" and "i \<le> length ?ms div ?s"
      then show "\<exists>w'. ups_ScanImpl mp w uctx (of_nat (i * ?s)) pat pageSize =
          (Inr (page_at ?ms ?s (length ?ms) i), w') \<and> ufaults w' = [] \<and> udbs w' num = Some t'"
        using ups_scan_step [of w uctx num t' pageSize i mp pat] assms(6,8,9) by blast
    qed (use s L assms(5,7) in simp_all)
    with count_ceiling_dvd [OF s, of "length ?ms"] show ?thesis by (simp only:)
  qed
qed

theorem scan_pagination_witness:
  "faults ex_env = [] \<and> dbir ex_ctx = Some ''main'' \<and> dbs ex_env ''main'' = Some ex_table \<and>
   length ex_table < 2 ^ 64 \<and>
   ufaults ex_uenv = [] \<and> db ex_uctx = Some 1 \<and> udbs ex_uenv 1 = Some ex_table \<and>
   (2 :: 64 word) \<noteq> 0 \<and>
   paginates (\<lambda>fuel. scan_pages (lmdb_Scan MatchPattern ex_ctx ''foo*'' 2) fuel ex_env 0)
     [''foo'', ''foo2''] 2 \<and>
   paginates (\<lambda>fuel. scan_pages (ups_Scan MatchPattern ex_uctx ''foo*'' 2) fuel ex_uenv 0)
     [''foo'', ''foo2''] 2"
proof -
  have h: "faults ex_env = []" "dbir ex_ctx = Some ''main''" "dbs ex_env ''main'' = Some ex_table"
    "length ex_table < 2 ^ 64"
    "ufaults ex_uenv = []" "db ex_uctx = Some 1" "udbs ex_uenv 1 = Some ex_table"
    "length ex_table < 2 ^ 64" "(2 :: 64 word) \<noteq> 0"
    by (simp_all add: ex_defs)
  have ms: "filter (\<lambda>k. MatchPattern k ''foo*'') (map fst ex_table) = [''foo'', ''foo2'']"
    by (simp add: ex_defs MatchPattern_def)
  have lst: "MatchPattern (fst (last ex_table)) ''foo*'' = False"
    by (simp add: ex_defs MatchPattern_def)
  have n: "ceiling_pages (length [''foo'', ''foo2'']) (unat (2 :: 64 word)) +
      (if unat (2 :: 64 word) dvd length [''foo'', ''foo2''] then 1 else 0) = 2"
    by (simp add: ceiling_pages_def)
  from scan_pagination [OF h, of MatchPattern "''foo*''"]
  have "paginates (\<lambda>fuel. scan_pages (lmdb_Scan MatchPattern ex_ctx ''foo*'' 2) fuel ex_env 0)
     [''foo'', ''foo2''] 2 \<and>
   paginates (\<lambda>fuel. scan_pages (ups_Scan MatchPattern ex_uctx ''foo*'' 2) fuel ex_uenv 0)
     [''foo'', ''foo2''] 2"
    by (simp only: ms lst n simp_thms if_False)
  with h show ?thesis by (simp only: simp_thms)
qed

text \<open>
  C2 as stated fails: with two matches and the page size 2 both backends use two pages,
  the second of them empty, where the ceiling of \<open>M / s\<close> is 1.
\<close>

theorem scan_pagination_counterexample:
  "scan_pages (ups_Scan MatchPattern ex_uctx ''foo*'' 2) 2 ex_uenv 0 =
     Some (Inr [([''foo'', ''foo2''], 2), ([], 0)]) \<and>
   fst (lmdb_Scan MatchPattern ex_ctx ''foo*'' 2 ex_env 0) = Inr ([''foo'', ''foo2''], 2) \<and>
   fst (lmdb_Scan MatchPattern ex_ctx ''foo*'' 2 ex_env 2) = Inr ([], 0) \<and>
   filter (glob ''foo*'') (map fst ex_table) = [''foo'', ''foo2''] \<and>
   ceiling_pages 2 2 = 1"
  by code_simp

section \<open>Flush\<close>

lemma mdb_status_keeps [simp]:
  "dbs (snd (mdb_status e)) = dbs e" "trace (snd (mdb_status e)) = trace e"
  by (simp_all add: mdb_status_def split: list.splits)

lemma mdb_cursor_get_keeps:
  "mdb_cursor_get e cur = (rc, k, cur', e') \<Longrightarrow> dbs e' = dbs e \<and> trace e' = trace e"
  by (auto simp: mdb_cursor_get_def mdb_status_def split: list.splits if_splits)

lemma mdb_del_keeps:
  "mdb_del e txn dbi k = (rc, txn', e') \<Longrightarrow>
     dbs e' = dbs e \<and> trace e' = trace e @ [Del k rc] \<and> (rc \<noteq> 0 \<longrightarrow> txn' = txn)"
  by (auto simp: mdb_del_def mdb_status_def Let_def split: list.splits if_splits)

lemma lmdb_flush_loop_trace:
  "lmdb_flush_loop e txn dbi cur sz = (r, sz', txn', e') \<Longrightarrow>
   \<exists>evs. trace e' = trace e @ evs \<and> dbs e' = dbs e \<and>
     (\<forall>ev \<in> set evs. \<exists>k rc. ev = Del k rc) \<and>
     (r = None \<longleftrightarrow> (\<forall>k rc. Del k rc \<in> set evs \<longrightarrow> rc = 0))"
proof (induction e txn dbi cur sz arbitrary: r sz' txn' e' rule: lmdb_flush_loop.induct)
  case (1 e txn dbi cur sz)
  obtain rc key cur1 e1 where g: "mdb_cursor_get e cur = (rc, key, cur1, e1)"
    by (cases "mdb_cursor_get e cur") auto
  note k1 = mdb_cursor_get_keeps [OF g]
  show ?case
  proof (cases "rc = LMDB_OK")
    case False
    with "1.prems" g k1 show ?thesis
      by (subst (asm) lmdb_flush_loop.simps) auto
  next
    case True
    obtain rc2 txn2 e2 where d: "mdb_del e1 txn dbi key = (rc2, txn2, e2)"
      by (cases "mdb_del e1 txn dbi key") auto
    note k2 = mdb_del_keeps [OF d]
    show ?thesis
    proof (cases "rc2 = 0")
      case False
      with "1.prems" g d True k1 k2 show ?thesis
        by (subst (asm) lmdb_flush_loop.simps)
           (auto simp: lmdb_CheckResultCommand_def LMDB_OK_def)
    next
      case ok: True
      from "1.prems" g d True ok
      have rec: "lmdb_flush_loop e2 txn2 dbi cur1 (sz + 1) = (r, sz', txn', e')"
        by (subst (asm) lmdb_flush_loop.simps)
           (simp add: lmdb_CheckResultCommand_def LMDB_OK_def)
      from "1.IH" [OF g [symmetric] refl refl True d [symmetric] refl _ rec] ok
      obtain evs where "trace e' = trace e2 @ evs" "dbs e' = dbs e2"
        "\<forall>ev \<in> set evs. \<exists>k rc. ev = Del k rc"
        "r = None \<longleftrightarrow> (\<forall>k rc. Del k rc \<in> set evs \<longrightarrow> rc = 0)"
        by (auto simp: lmdb_CheckResultCommand_def LMDB_OK_def)
      with k1 k2 ok show ?thesis
        by (intro exI [of _ "Del key 0 # evs"]) auto
    qed
  qed
qed

lemma mdb_txn_begin_keeps:
  "mdb_txn_begin e fl = (rc, txn, e1) \<Longrightarrow>
     dbs e1 = dbs e \<and> trace e1 = trace e @ (if rc = 0 then [TxnBegin] else [])"
  by (auto simp: mdb_txn_begin_def mdb_status_def split: list.splits if_splits)

lemma mdb_cursor_open_keeps:
  "mdb_cursor_open e txn dbi = (rc, cur, e1) \<Longrightarrow> dbs e1 = dbs e \<and> trace e1 = trace e"
  by (auto simp: mdb_cursor_open_def mdb_status_def split: list.splits if_splits option.splits)

lemma mdb_txn_commit_keeps:
  "mdb_txn_commit e txn = (rc, e1) \<Longrightarrow>
     trace e1 = trace e @ [TxnCommit rc] \<and> (rc \<noteq> 0 \<longrightarrow> dbs e1 = dbs e)"
  by (auto simp: mdb_txn_commit_def mdb_status_def split: list.splits if_splits)

lemma mdb_txn_abort_keeps [simp]:
  "dbs (mdb_txn_abort e txn) = dbs e" "trace (mdb_txn_abort e txn) = trace e @ [TxnAbort]"
  "faults (mdb_txn_abort e txn) = faults e"
  by (simp_all add: mdb_txn_abort_def)

lemma lmdb_FlushDBImpl_any:
  assumes run: "lmdb_FlushDBImpl e ctx conf = (err, e')"
  shows "\<exists>evs. trace e' = trace e @ evs \<and>
     (err \<noteq> None \<longrightarrow> dbs e' = dbs e \<and> TxnCommit 0 \<notin> set evs) \<and>
     ((\<exists>k rc. Del k rc \<in> set evs \<and> rc \<noteq> 0) \<longrightarrow>
        err \<noteq> None \<and> last evs = TxnAbort \<and> (\<forall>rc. TxnCommit rc \<notin> set evs))"
proof -
  obtain rc txn e1 where
    b: "mdb_txn_begin e (lmdb_db_flag_from_env_flags (cfg_env_flags conf)) = (rc, txn, e1)"
    by (metis prod_cases3)
  note kb = mdb_txn_begin_keeps [OF b]
  show ?thesis
  proof (cases "rc = 0")
    case False
    with run b kb show ?thesis
      by (auto simp: lmdb_FlushDBImpl_def lmdb_CheckResultCommand_def LMDB_OK_def)
  next
    case rc0: True
    obtain rc2 cur e2 where o: "mdb_cursor_open e1 txn (dbir ctx) = (rc2, cur, e2)"
      by (metis prod_cases3)
    note ko = mdb_cursor_open_keeps [OF o]
    show ?thesis
    proof (cases "rc2 = 0")
      case False
      with run b o rc0 kb ko show ?thesis
        by (auto simp: lmdb_FlushDBImpl_def lmdb_CheckResultCommand_def LMDB_OK_def)
    next
      case rc20: True
      obtain r sz txn3 e3 where l: "lmdb_flush_loop e2 txn (dbir ctx) cur 0 = (r, sz, txn3, e3)"
        by (metis prod_cases4)
      from lmdb_flush_loop_trace [OF l] obtain evs where
        evs: "trace e3 = trace e2 @ evs" "dbs e3 = dbs e2"
          "\<forall>ev \<in> set evs. \<exists>k rc. ev = Del k rc"
          "r = None \<longleftrightarrow> (\<forall>k rc. Del k rc \<in> set evs \<longrightarrow> rc = 0)"
        by blast
      have nocommit: "TxnCommit c \<notin> set evs" for c using evs(3) by auto
      show ?thesis
      proof (cases r)
        case (Some err3)
        with run b o l rc0 rc20 have "err = Some err3" "e' = mdb_txn_abort e3 txn3"
          by (auto simp: lmdb_FlushDBImpl_def lmdb_CheckResultCommand_def LMDB_OK_def)
        with kb ko evs nocommit rc0 show ?thesis
          by (intro exI [of _ "TxnBegin # evs @ [TxnAbort]"]) auto
      next
        case None
        with evs(4) have alldel: "\<And>k rc. Del k rc \<in> set evs \<Longrightarrow> rc = 0" by blast
        show ?thesis
        proof (cases "sz = 0")
          case True
          with None run b o l rc0 rc20 have "err = None" "e' = mdb_txn_abort e3 txn3"
            by (auto simp: lmdb_FlushDBImpl_def lmdb_CheckResultCommand_def LMDB_OK_def)
          with kb ko evs alldel rc0 show ?thesis
            by (intro exI [of _ "TxnBegin # evs @ [TxnAbort]"]) auto
        next
          case False
          obtain rc3 e4 where c: "mdb_txn_commit e3 txn3 = (rc3, e4)" by (metis prod.exhaust)
          note kc = mdb_txn_commit_keeps [OF c]
          from False None run b o l c rc0 rc20
          have "err = lmdb_CheckResultCommand ''FLUSHDB'' rc3" "e' = e4"
            by (auto simp: lmdb_FlushDBImpl_def lmdb_CheckResultCommand_def LMDB_OK_def)
          with kb ko kc evs alldel nocommit rc0 show ?thesis
            by (intro exI [of _ "TxnBegin # evs @ [TxnCommit rc3]"])
               (auto simp: lmdb_CheckResultCommand_def LMDB_OK_def)
        qed
      qed
    qed
  qed
qed

lemma map_of_present: "k \<in> fst ` set t \<Longrightarrow> map_of t k \<noteq> None"
  by (simp add: map_of_eq_None_iff)

lemma tbl_del_keys: "fst ` set (tbl_del k t) = fst ` set t - {k}"
  by (auto simp: tbl_del_def)

lemma tbl_del_filter:
  "filter (\<lambda>kv. fst kv \<notin> set ks) (tbl_del k t) = filter (\<lambda>kv. fst kv \<notin> set (k # ks)) t"
  by (induction t) (auto simp: tbl_del_def)

lemma mdb_del_nofault:
  "faults e = [] \<Longrightarrow> \<not> txn_rdonly txn \<Longrightarrow> txn_dbs txn n = Some t \<Longrightarrow> k \<in> fst ` set t \<Longrightarrow>
   mdb_del e txn (Some n) k =
     (0, txn\<lparr>txn_dbs := (txn_dbs txn)(n \<mapsto> tbl_del k t)\<rparr>, mdb_log (Del k 0) e)"
  using map_of_present [of k t]
  by (simp add: mdb_del_def mdb_del_status_def mdb_status_nofault dbi_table_def Let_def)

lemma lmdb_flush_loop_nofault:
  "faults e = [] \<Longrightarrow> \<not> txn_rdonly txn \<Longrightarrow> txn_dbs txn n = Some t \<Longrightarrow>
   set ks \<subseteq> fst ` set t \<Longrightarrow> distinct ks \<Longrightarrow>
   lmdb_flush_loop e txn (Some n) ks sz =
     (None, sz + length ks,
      txn\<lparr>txn_dbs := (txn_dbs txn)(n \<mapsto> filter (\<lambda>kv. fst kv \<notin> set ks) t)\<rparr>,
      e\<lparr>trace := trace e @ map (\<lambda>k. Del k 0) ks\<rparr>)"
proof (induction ks arbitrary: e txn t sz)
  case Nil
  then have "(txn_dbs txn)(n \<mapsto> t) = txn_dbs txn" by (simp add: fun_upd_idem)
  with Nil show ?case
    by (subst lmdb_flush_loop.simps)
       (simp add: mdb_cursor_get_Nil MDB_NOTFOUND_def LMDB_OK_def)
next
  case (Cons k ks)
  let ?txn = "txn\<lparr>txn_dbs := (txn_dbs txn)(n \<mapsto> tbl_del k t)\<rparr>"
  let ?e = "mdb_log (Del k 0) e"
  from Cons.prems have k: "k \<in> fst ` set t" by simp
  have d: "mdb_del e txn (Some n) k = (0, ?txn, ?e)"
    using Cons.prems(1-3) k by (rule mdb_del_nofault)
  have sub: "set ks \<subseteq> fst ` set (tbl_del k t)"
    using Cons.prems(4,5) by (auto simp: tbl_del_keys)
  have "lmdb_flush_loop ?e ?txn (Some n) ks (sz + 1) =
     (None, sz + 1 + length ks,
      ?txn\<lparr>txn_dbs := (txn_dbs ?txn)(n \<mapsto> filter (\<lambda>kv. fst kv \<notin> set ks) (tbl_del k t))\<rparr>,
      ?e\<lparr>trace := trace ?e @ map (\<lambda>k. Del k 0) ks\<rparr>)"
    using Cons.prems sub by (intro Cons.IH) simp_all
  then show ?case
    by (subst lmdb_flush_loop.simps)
       (simp add: mdb_cursor_get_Cons [OF Cons.prems(1)] d LMDB_OK_def lmdb_CheckResultCommand_def
          tbl_del_filter mdb_log_def)
qed

lemma lmdb_FlushDBImpl_nofault:
  assumes "faults e = []" and "dbir ctx = Some n" and "dbs e n = Some t"
    and "distinct (map fst t)" and "cfg_env_flags conf AND MDB_RDONLY = 0"
  shows "lmdb_FlushDBImpl e ctx conf =
     (None,
      e\<lparr>dbs := (dbs e)(n \<mapsto> []),
        trace := trace e @ [TxnBegin] @ map (\<lambda>k. Del k 0) (map fst t) @
                 [if t = [] then TxnAbort else TxnCommit 0]\<rparr>)"
proof -
  let ?txn = "\<lparr>txn_dbs = dbs e, txn_rdonly = False\<rparr>"
  let ?e1 = "mdb_log TxnBegin e"
  have b: "mdb_txn_begin e (lmdb_db_flag_from_env_flags (cfg_env_flags conf)) = (0, ?txn, ?e1)"
    using assms(1,5) by (simp add: mdb_txn_begin_nofault lmdb_db_flag_from_env_flags_def)
  have o: "mdb_cursor_open ?e1 ?txn (Some n) = (0, map fst t, ?e1)"
    using assms(1,3) by (simp add: mdb_cursor_open_nofault)
  have l: "lmdb_flush_loop ?e1 ?txn (Some n) (map fst t) 0 =
     (None, 0 + length (map fst t),
      ?txn\<lparr>txn_dbs := (txn_dbs ?txn)(n \<mapsto> filter (\<lambda>kv. fst kv \<notin> set (map fst t)) t)\<rparr>,
      ?e1\<lparr>trace := trace ?e1 @ map (\<lambda>k. Del k 0) (map fst t)\<rparr>)"
    using assms(1,3,4) by (intro lmdb_flush_loop_nofault) simp_all
  have f: "filter (\<lambda>kv. fst kv \<notin> set (map fst t)) t = []" by (auto simp: filter_empty_conv)
  let ?txn3 = "?txn\<lparr>txn_dbs := (txn_dbs ?txn)(n \<mapsto> [])\<rparr>"
  let ?e3 = "?e1\<lparr>trace := trace ?e1 @ map (\<lambda>k. Del k 0) (map fst t)\<rparr>"
  have run: "lmdb_FlushDBImpl e ctx conf =
      (if length t \<noteq> 0
       then (case mdb_txn_commit ?e3 ?txn3 of
               (rc3, e4) \<Rightarrow> (lmdb_CheckResultCommand ''FLUSHDB'' rc3, e4))
       else (None, mdb_txn_abort ?e3 ?txn3))"
    using assms(2)
    by (simp add: lmdb_FlushDBImpl_def b o l f lmdb_CheckResultCommand_def LMDB_OK_def)
  show ?thesis
  proof (cases "t = []")
    case True
    with assms(3) have "(dbs e)(n \<mapsto> []) = dbs e" by (simp add: fun_upd_idem)
    with True show ?thesis
      by (simp add: run mdb_txn_abort_def mdb_log_def)
  next
    case False
    with assms(1) show ?thesis
      by (simp add: run mdb_txn_commit_def mdb_status_def mdb_log_def
            lmdb_CheckResultCommand_def LMDB_OK_def)
  qed
qed

lemma ups_db_erase_nofault:
  "ufaults e = [] \<Longrightarrow> udbs e n = Some t \<Longrightarrow> k \<in> fst ` set t \<Longrightarrow>
   ups_db_erase e (Some n) k = (0, ups_log (Erase k 0) (e\<lparr>udbs := (udbs e)(n \<mapsto> tbl_del k t)\<rparr>))"
  using map_of_present [of k t]
  by (simp add: ups_db_erase_def ups_erase_status_def ups_status_nofault ups_db_table_def Let_def)

lemma ups_flush_loop_nofault:
  "ufaults e = [] \<Longrightarrow> udbs e n = Some t \<Longrightarrow> set ks \<subseteq> fst ` set t \<Longrightarrow> distinct ks \<Longrightarrow>
   ups_flush_loop e (Some n) ks =
     (None, e\<lparr>udbs := (udbs e)(n \<mapsto> filter (\<lambda>kv. fst kv \<notin> set ks) t),
              utrace := utrace e @ map (\<lambda>k. Erase k 0) ks\<rparr>)"
proof (induction ks arbitrary: e t)
  case Nil
  then have "(udbs e)(n \<mapsto> t) = udbs e" by (simp add: fun_upd_idem)
  with Nil show ?case
    by (subst ups_flush_loop.simps)
       (simp add: ups_cursor_move_Nil UPS_KEY_NOT_FOUND_def UPS_SUCCESS_def)
next
  case (Cons k ks)
  let ?e = "ups_log (Erase k 0) (e\<lparr>udbs := (udbs e)(n \<mapsto> tbl_del k t)\<rparr>)"
  from Cons.prems have k: "k \<in> fst ` set t" by simp
  have d: "ups_db_erase e (Some n) k = (0, ?e)"
    using Cons.prems(1,2) k by (rule ups_db_erase_nofault)
  have sub: "set ks \<subseteq> fst ` set (tbl_del k t)"
    using Cons.prems(3,4) by (auto simp: tbl_del_keys)
  have "ups_flush_loop ?e (Some n) ks =
     (None, ?e\<lparr>udbs := (udbs ?e)(n \<mapsto> filter (\<lambda>kv. fst kv \<notin> set ks) (tbl_del k t)),
               utrace := utrace ?e @ map (\<lambda>k. Erase k 0) ks\<rparr>)"
    using Cons.prems sub by (intro Cons.IH) (simp_all add: ups_log_def)
  then show ?case
    by (subst ups_flush_loop.simps)
       (simp add: ups_cursor_move_Cons [OF Cons.prems(1)] d UPS_SUCCESS_def
          tbl_del_filter ups_log_def)
qed

lemma ups_FlushDBImpl_nofault:
  assumes "ufaults u = []" and "db uctx = Some num" and "udbs u num = Some t"
    and "distinct (map fst t)"
  shows "ups_FlushDBImpl u uctx =
     (None, u\<lparr>udbs := (udbs u)(num \<mapsto> []),
              utrace := utrace u @ map (\<lambda>k. Erase k 0) (map fst t)\<rparr>)"
proof -
  have f: "filter (\<lambda>kv. fst kv \<notin> set (map fst t)) t = []" by (auto simp: filter_empty_conv)
  have "ups_flush_loop u (Some num) (map fst t) =
     (None, u\<lparr>udbs := (udbs u)(num \<mapsto> filter (\<lambda>kv. fst kv \<notin> set (map fst t)) t),
              utrace := utrace u @ map (\<lambda>k. Erase k 0) (map fst t)\<rparr>)"
    using assms(1,3,4) by (intro ups_flush_loop_nofault) simp_all
  with assms(1-3) show ?thesis
    by (simp add: ups_FlushDBImpl_def ups_cursor_create_nofault ups_CheckResultCommand_def
          UPS_SUCCESS_def f)
qed

text \<open>
  What holds of a flush. On LMDB \<open>FlushTable\<close> works inside one transaction. On a
  writable environment whose calls do not fail it deletes every key of the current
  table and commits, and when the table is empty it aborts the transaction instead of
  committing it. Whatever calls fail: when it reports an error the committed tables
  are unchanged and nothing was committed, and when a deletion fails the error is
  reported and the transaction ends aborted. On upscaledb there is no transaction: the
  keys are erased one by one, and when no call fails every key of the current table is
  deleted.
\<close>

lemma flush_in_transaction:
  assumes "faults e = []" and "dbir ctx = Some n" and "dbs e n = Some t"
    and "distinct (map fst t)" and "cfg_env_flags conf AND MDB_RDONLY = 0"
    and "ufaults u = []" and "db uctx = Some num" and "udbs u num = Some t'"
    and "distinct (map fst t')"
    and "lmdb_FlushDBImpl e2 ctx2 conf2 = (err, e2')"
  shows
    "lmdb_FlushDBImpl e ctx conf =
       (None,
        e\<lparr>dbs := (dbs e)(n \<mapsto> []),
          trace := trace e @ [TxnBegin] @ map (\<lambda>k. Del k 0) (map fst t) @
                   [if t = [] then TxnAbort else TxnCommit 0]\<rparr>) \<and>
     (\<exists>evs. trace e2' = trace e2 @ evs \<and>
        (err \<noteq> None \<longrightarrow> dbs e2' = dbs e2 \<and> TxnCommit 0 \<notin> set evs) \<and>
        ((\<exists>k rc. Del k rc \<in> set evs \<and> rc \<noteq> 0) \<longrightarrow>
           err \<noteq> None \<and> last evs = TxnAbort \<and> (\<forall>rc. TxnCommit rc \<notin> set evs))) \<and>
     ups_FlushDBImpl u uctx =
       (None, u\<lparr>udbs := (udbs u)(num \<mapsto> []),
                utrace := utrace u @ map (\<lambda>k. Erase k 0) (map fst t')\<rparr>)"
  using lmdb_FlushDBImpl_nofault [OF assms(1-5)] lmdb_FlushDBImpl_any [OF assms(10)]
    ups_FlushDBImpl_nofault [OF assms(6-9)]
  by (intro conjI)

text \<open>A flush of the concrete LMDB store whose first deletion fails.\<close>

lemma ex_flush_fails:
  "fst (lmdb_FlushDBImpl ex_env_del_fails ex_ctx ex_conf) = Some (ErrCommand ''FLUSHDB'' 7) \<and>
   trace (snd (lmdb_FlushDBImpl ex_env_del_fails ex_ctx ex_conf)) = [TxnBegin, Del ''foo'' 7, TxnAbort] \<and>
   dbs (snd (lmdb_FlushDBImpl ex_env_del_fails ex_ctx ex_conf)) ''main'' = Some ex_table"
  by code_simp

text \<open>
  A flush of the concrete LMDB store whose second read of the cursor fails. The loop
  takes every status of \<open>mdb_cursor_get\<close> other than success for the end of the table:
  the one deletion made is committed and the flush reports success.
\<close>

lemma ex_flush_cursor_fails:
  "fst (lmdb_FlushDBImpl ex_env_cursor_fails ex_ctx ex_conf) = None \<and>
   trace (snd (lmdb_FlushDBImpl ex_env_cursor_fails ex_ctx ex_conf)) =
     [TxnBegin, Del ''foo'' 0, TxnCommit 0] \<and>
   dbs (snd (lmdb_FlushDBImpl ex_env_cursor_fails ex_ctx ex_conf)) ''main'' =
     Some [(''foo2'', ''baz''), (''zap'', ''1'')]"
  by code_simp

text \<open>
  C3 when a deletion fails. On the concrete upscaledb store whose first \<open>ups_db_erase\<close>
  fails, \<open>FlushTable\<close> does not look at the status: it goes on, erases the other keys
  and reports success with the key \<open>foo\<close> left, so that neither every key is deleted nor
  the table is unchanged. On the concrete LMDB store whose first \<open>mdb_del\<close> fails, the
  flush checks the status: it reports the error, aborts the transaction and leaves the
  table as it was.
\<close>

theorem flush_erase_failure_ignored:
  "udbs ex_uenv_erase_fails 1 = Some [(''foo'', ''bar''), (''foo2'', ''baz''), (''zap'', ''1'')] \<and>
   fst (ups_FlushDBImpl ex_uenv_erase_fails ex_uctx) = None \<and>
   utrace (snd (ups_FlushDBImpl ex_uenv_erase_fails ex_uctx)) =
     [Erase ''foo'' 7, Erase ''foo2'' 0, Erase ''zap'' 0] \<and>
   udbs (snd (ups_FlushDBImpl ex_uenv_erase_fails ex_uctx)) 1 = Some [(''foo'', ''bar'')] \<and>
   fst (lmdb_FlushDBImpl ex_env_del_fails ex_ctx ex_conf) = Some (ErrCommand ''FLUSHDB'' 7) \<and>
   trace (snd (lmdb_FlushDBImpl ex_env_del_fails ex_ctx ex_conf)) =
     [TxnBegin, Del ''foo'' 7, TxnAbort] \<and>
   dbs (snd (lmdb_FlushDBImpl ex_env_del_fails ex_ctx ex_conf)) ''main'' =
     Some [(''foo'', ''bar''), (''foo2'', ''baz''), (''zap'', ''1'')]"
  by code_simp

lemma flush_in_transaction_example:
  "faults ex_env = [] \<and> dbir ex_ctx = Some ''main'' \<and> dbs ex_env ''main'' = Some ex_table \<and>
   distinct (map fst ex_table) \<and> cfg_env_flags ex_conf AND MDB_RDONLY = 0 \<and>
   ufaults ex_uenv = [] \<and> db ex_uctx = Some 1 \<and> udbs ex_uenv 1 = Some ex_table \<and>
   lmdb_FlushDBImpl ex_env ex_ctx ex_conf =
     (None, ex_env\<lparr>dbs := (dbs ex_env)(''main'' \<mapsto> []),
                  trace := [TxnBegin, Del ''foo'' 0, Del ''foo2'' 0, Del ''zap'' 0, TxnCommit 0]\<rparr>) \<and>
   fst (lmdb_FlushDBImpl ex_env_del_fails ex_ctx ex_conf) = Some (ErrCommand ''FLUSHDB'' 7) \<and>
   trace (snd (lmdb_FlushDBImpl ex_env_del_fails ex_ctx ex_conf)) =
     [TxnBegin, Del ''foo'' 7, TxnAbort] \<and>
   dbs (snd (lmdb_FlushDBImpl ex_env_del_fails ex_ctx ex_conf)) = dbs ex_env_del_fails \<and>
   ups_FlushDBImpl ex_uenv ex_uctx =
     (None, ex_uenv\<lparr>udbs := (udbs ex_uenv)(1 \<mapsto> []),
                   utrace := [Erase ''foo'' 0, Erase ''foo2'' 0, Erase ''zap'' 0]\<rparr>)"
proof -
  let ?F = "lmdb_FlushDBImpl ex_env_del_fails ex_ctx ex_conf"
  have h: "faults ex_env = []" "dbir ex_ctx = Some ''main''" "dbs ex_env ''main'' = Some ex_table"
    "distinct (map fst ex_table)" "cfg_env_flags ex_conf AND MDB_RDONLY = 0"
    "ufaults ex_uenv = []" "db ex_uctx = Some 1" "udbs ex_uenv 1 = Some ex_table"
    "distinct (map fst ex_table)"
    by (simp_all add: ex_defs)
  have r: "?F = (fst ?F, snd ?F)" by simp
  note T = flush_in_transaction [OF h r]
  from T ex_flush_fails have "dbs (snd ?F) = dbs ex_env_del_fails" by auto
  moreover from T have "lmdb_FlushDBImpl ex_env ex_ctx ex_conf =
     (None, ex_env\<lparr>dbs := (dbs ex_env)(''main'' \<mapsto> []),
                  trace := [TxnBegin, Del ''foo'' 0, Del ''foo2'' 0, Del ''zap'' 0, TxnCommit 0]\<rparr>)"
    by (simp add: ex_table_def ex_env_def)
  moreover from T have "ups_FlushDBImpl ex_uenv ex_uctx =
     (None, ex_uenv\<lparr>udbs := (udbs ex_uenv)(1 \<mapsto> []),
                   utrace := [Erase ''foo'' 0, Erase ''foo2'' 0, Erase ''zap'' 0]\<rparr>)"
    by (simp add: ex_table_def ex_uenv_def)
  ultimately show ?thesis using h ex_flush_fails by (simp only: simp_thms)
qed

section \<open>Get, Set, Delete, Rename\<close>

lemma map_of_tbl_put: "map_of (tbl_put k v t) k' = (if k' = k then Some v else map_of t k')"
  by (induction t) auto

lemma map_of_tbl_del: "map_of (tbl_del k t) k' = (if k' = k then None else map_of t k')"
  by (induction t) (auto simp: tbl_del_def)

lemma lmdb_GetInner_Inr:
  "lmdb_GetInner e ctx k = (Inr v, e1) \<Longrightarrow>
   dbs e1 = dbs e \<and> (\<exists>n t. dbir ctx = Some n \<and> dbs e n = Some t \<and> map_of t k = Some v)"
  by (auto simp: lmdb_GetInner_def mdb_txn_begin_def mdb_get_def mdb_status_def dbi_table_def
        lmdb_CheckResultCommand_def LMDB_OK_def EINVAL_def MDB_NOTFOUND_def
        split: list.splits if_splits option.splits prod.splits)

lemma lmdb_GetInner_Inl:
  "lmdb_GetInner e ctx k = (Inl err, e1) \<Longrightarrow> dbs e1 = dbs e"
  by (auto simp: lmdb_GetInner_def mdb_txn_begin_def mdb_get_def mdb_status_def dbi_table_def
        lmdb_CheckResultCommand_def LMDB_OK_def
        split: list.splits if_splits option.splits prod.splits)

lemma lmdb_GetInner_absent:
  "dbir ctx = Some n \<Longrightarrow> dbs e n = Some t \<Longrightarrow> map_of t k = None \<Longrightarrow>
   \<exists>err e1. lmdb_GetInner e ctx k = (Inl err, e1)"
  by (auto simp: lmdb_GetInner_def mdb_txn_begin_def mdb_get_def mdb_status_def dbi_table_def
        lmdb_CheckResultCommand_def LMDB_OK_def EINVAL_def MDB_NOTFOUND_def
        split: list.splits if_splits option.splits prod.splits)

lemma lmdb_GetInner_nofault:
  "faults e = [] \<Longrightarrow> dbir ctx = Some n \<Longrightarrow> dbs e n = Some t \<Longrightarrow>
   fst (lmdb_GetInner e ctx k) =
     (case map_of t k of None \<Rightarrow> Inl (ErrCommand ''GET'' MDB_NOTFOUND) | Some v \<Rightarrow> Inr v)"
  by (auto simp: lmdb_GetInner_def mdb_txn_begin_def mdb_get_def mdb_status_def dbi_table_def
        lmdb_CheckResultCommand_def LMDB_OK_def EINVAL_def MDB_NOTFOUND_def
        split: list.splits if_splits option.splits prod.splits)

lemma lmdb_DelInner_None:
  "lmdb_DelInner e ctx conf k = (None, e1) \<Longrightarrow>
   \<exists>n t. dbir ctx = Some n \<and> dbs e n = Some t \<and> map_of t k \<noteq> None \<and>
     dbs e1 = (dbs e)(n \<mapsto> tbl_del k t)"
  by (auto simp: lmdb_DelInner_def mdb_txn_begin_def mdb_del_def mdb_del_status_def mdb_status_def
        dbi_table_def mdb_txn_commit_def mdb_txn_abort_def mdb_log_def Let_def
        lmdb_CheckResultCommand_def LMDB_OK_def EINVAL_def EACCES_def MDB_NOTFOUND_def
        split: list.splits if_splits option.splits prod.splits)

lemma lmdb_DelInner_Some:
  "lmdb_DelInner e ctx conf k = (Some err, e1) \<Longrightarrow> dbs e1 = dbs e"
  by (auto simp: lmdb_DelInner_def mdb_txn_begin_def mdb_del_def mdb_del_status_def mdb_status_def
        dbi_table_def mdb_txn_commit_def mdb_txn_abort_def mdb_log_def Let_def
        lmdb_CheckResultCommand_def LMDB_OK_def
        split: list.splits if_splits option.splits prod.splits)

lemma lmdb_SetInner_None:
  "lmdb_SetInner e ctx conf k v = (None, e1) \<Longrightarrow>
   \<exists>n t. dbir ctx = Some n \<and> dbs e n = Some t \<and> dbs e1 = (dbs e)(n \<mapsto> tbl_put k v t)"
  by (auto simp: lmdb_SetInner_def mdb_txn_begin_def mdb_put_def mdb_status_def
        dbi_table_def mdb_txn_commit_def mdb_txn_abort_def mdb_log_def
        lmdb_CheckResultCommand_def LMDB_OK_def EINVAL_def EACCES_def
        split: list.splits if_splits option.splits prod.splits)

lemma ups_GetInner_Inr:
  "ups_GetInner e ctx k = (Inr v, e1) \<Longrightarrow>
   udbs e1 = udbs e \<and> (\<exists>n t. db ctx = Some n \<and> udbs e n = Some t \<and> map_of t k = Some v)"
  by (auto simp: ups_GetInner_def ups_db_find_def ups_status_def ups_db_table_def
        ups_CheckResultCommand_def UPS_SUCCESS_def UPS_INV_PARAMETER_def UPS_KEY_NOT_FOUND_def
        split: list.splits if_splits option.splits prod.splits)

lemma ups_GetInner_Inl:
  "ups_GetInner e ctx k = (Inl err, e1) \<Longrightarrow> udbs e1 = udbs e"
  by (auto simp: ups_GetInner_def ups_db_find_def ups_status_def ups_db_table_def
        ups_CheckResultCommand_def UPS_SUCCESS_def
        split: list.splits if_splits option.splits prod.splits)

lemma ups_GetInner_absent:
  "db ctx = Some n \<Longrightarrow> udbs e n = Some t \<Longrightarrow> map_of t k = None \<Longrightarrow>
   \<exists>err e1. ups_GetInner e ctx k = (Inl err, e1)"
  by (auto simp: ups_GetInner_def ups_db_find_def ups_status_def ups_db_table_def
        ups_CheckResultCommand_def UPS_SUCCESS_def UPS_INV_PARAMETER_def UPS_KEY_NOT_FOUND_def
        split: list.splits if_splits option.splits prod.splits)

lemma ups_GetInner_nofault:
  "ufaults e = [] \<Longrightarrow> db ctx = Some n \<Longrightarrow> udbs e n = Some t \<Longrightarrow>
   fst (ups_GetInner e ctx k) =
     (case map_of t k of None \<Rightarrow> Inl (ErrCommand DB_GET_KEY_COMMAND UPS_KEY_NOT_FOUND)
      | Some v \<Rightarrow> Inr v)"
  by (auto simp: ups_GetInner_def ups_db_find_def ups_status_def ups_db_table_def
        ups_CheckResultCommand_def UPS_SUCCESS_def UPS_INV_PARAMETER_def UPS_KEY_NOT_FOUND_def
        split: list.splits if_splits option.splits prod.splits)

lemma ups_DelInner_None:
  "ups_DelInner e ctx k = (None, e1) \<Longrightarrow>
   \<exists>n t. db ctx = Some n \<and> udbs e n = Some t \<and> map_of t k \<noteq> None \<and>
     udbs e1 = (udbs e)(n \<mapsto> tbl_del k t)"
  by (auto simp: ups_DelInner_def ups_db_erase_def ups_erase_status_def ups_status_def
        ups_db_table_def ups_log_def Let_def
        ups_CheckResultCommand_def UPS_SUCCESS_def UPS_INV_PARAMETER_def UPS_KEY_NOT_FOUND_def
        split: list.splits if_splits option.splits prod.splits)

lemma ups_DelInner_Some:
  "ups_DelInner e ctx k = (Some err, e1) \<Longrightarrow> udbs e1 = udbs e"
  by (auto simp: ups_DelInner_def ups_db_erase_def ups_erase_status_def ups_status_def
        ups_db_table_def ups_log_def Let_def
        ups_CheckResultCommand_def UPS_SUCCESS_def
        split: list.splits if_splits option.splits prod.splits)

lemma ups_SetInner_None:
  "ups_SetInner e ctx k v = (None, e1) \<Longrightarrow>
   \<exists>n t. db ctx = Some n \<and> udbs e n = Some t \<and> udbs e1 = (udbs e)(n \<mapsto> tbl_put k v t)"
  by (auto simp: ups_SetInner_def ups_db_insert_def ups_status_def ups_db_table_def
        ups_CheckResultCommand_def UPS_SUCCESS_def UPS_INV_PARAMETER_def
        split: list.splits if_splits option.splits prod.splits)

lemma lmdb_RenameImpl_None:
  assumes run: "lmdb_RenameImpl e ctx conf k1 k2 = (None, e')"
    and sel: "dbir ctx = Some n" "dbs e n = Some t"
  shows "\<exists>v. map_of t k1 = Some v \<and> dbs e' = (dbs e)(n \<mapsto> tbl_put k2 v (tbl_del k1 t))"
proof -
  from run obtain v e1 e2 where
    g: "lmdb_GetInner e ctx k1 = (Inr v, e1)" and
    d: "lmdb_DelInner e1 ctx conf k1 = (None, e2)" and
    s: "lmdb_SetInner e2 ctx conf k2 v = (None, e')"
    by (auto simp: lmdb_RenameImpl_def split: prod.splits sum.splits option.splits)
  from lmdb_GetInner_Inr [OF g] sel have v: "map_of t k1 = Some v" and e1: "dbs e1 = dbs e"
    by auto
  from lmdb_DelInner_None [OF d] sel e1 have e2: "dbs e2 = (dbs e)(n \<mapsto> tbl_del k1 t)"
    by auto
  from lmdb_SetInner_None [OF s] sel e2
  have "dbs e' = (dbs e)(n \<mapsto> tbl_put k2 v (tbl_del k1 t))" by auto
  with v show ?thesis by blast
qed

lemma lmdb_RenameImpl_absent:
  assumes sel: "dbir ctx = Some n" "dbs e n = Some t" and "map_of t k1 = None"
  shows "fst (lmdb_RenameImpl e ctx conf k1 k2) \<noteq> None \<and>
         dbs (snd (lmdb_RenameImpl e ctx conf k1 k2)) = dbs e"
proof -
  from lmdb_GetInner_absent [OF assms] obtain err e1 where
    g: "lmdb_GetInner e ctx k1 = (Inl err, e1)" by blast
  with lmdb_GetInner_Inl [OF g] show ?thesis
    by (simp add: lmdb_RenameImpl_def)
qed

lemma ups_RenameImpl_None:
  assumes run: "ups_RenameImpl e ctx k1 k2 = (None, e')"
    and sel: "db ctx = Some n" "udbs e n = Some t"
  shows "\<exists>v. map_of t k1 = Some v \<and> udbs e' = (udbs e)(n \<mapsto> tbl_put k2 v (tbl_del k1 t))"
proof -
  from run obtain v e1 e2 where
    g: "ups_GetInner e ctx k1 = (Inr v, e1)" and
    d: "ups_DelInner e1 ctx k1 = (None, e2)" and
    s: "ups_SetInner e2 ctx k2 v = (None, e')"
    by (auto simp: ups_RenameImpl_def split: prod.splits sum.splits option.splits)
  from ups_GetInner_Inr [OF g] sel have v: "map_of t k1 = Some v" and e1: "udbs e1 = udbs e"
    by auto
  from ups_DelInner_None [OF d] sel e1 have e2: "udbs e2 = (udbs e)(n \<mapsto> tbl_del k1 t)"
    by auto
  from ups_SetInner_None [OF s] sel e2
  have "udbs e' = (udbs e)(n \<mapsto> tbl_put k2 v (tbl_del k1 t))" by auto
  with v show ?thesis by blast
qed

lemma ups_RenameImpl_absent:
  assumes sel: "db ctx = Some n" "udbs e n = Some t" and "map_of t k1 = None"
  shows "fst (ups_RenameImpl e ctx k1 k2) \<noteq> None \<and>
         udbs (snd (ups_RenameImpl e ctx k1 k2)) = udbs e"
proof -
  from ups_GetInner_absent [OF assms] obtain err e1 where
    g: "ups_GetInner e ctx k1 = (Inl err, e1)" by blast
  with ups_GetInner_Inl [OF g] show ?thesis
    by (simp add: ups_RenameImpl_def)
qed

text \<open>The value a key has after a successful rename, read by a \<open>Get\<close> that does not fail.\<close>

lemma lmdb_get_after_rename:
  assumes run: "lmdb_RenameImpl e ctx conf k1 k2 = (None, e')"
    and sel: "dbir ctx = Some n" "dbs e n = Some t"
  shows "\<exists>v. map_of t k1 = Some v \<and>
     fst (lmdb_GetInner (e'\<lparr>faults := []\<rparr>) ctx k2) = Inr v \<and>
     (k1 \<noteq> k2 \<longrightarrow>
        fst (lmdb_GetInner (e'\<lparr>faults := []\<rparr>) ctx k1) = Inl (ErrCommand ''GET'' MDB_NOTFOUND))"
proof -
  from lmdb_RenameImpl_None [OF run sel] obtain v where
    v: "map_of t k1 = Some v" and e': "dbs e' = (dbs e)(n \<mapsto> tbl_put k2 v (tbl_del k1 t))"
    by blast
  let ?e = "e'\<lparr>faults := []\<rparr>"
  have "faults ?e = []" "dbs ?e n = Some (tbl_put k2 v (tbl_del k1 t))" using e' by simp_all
  from lmdb_GetInner_nofault [OF this(1) sel(1) this(2)] v show ?thesis
    by (auto simp: map_of_tbl_put map_of_tbl_del)
qed

lemma ups_get_after_rename:
  assumes run: "ups_RenameImpl e ctx k1 k2 = (None, e')"
    and sel: "db ctx = Some n" "udbs e n = Some t"
  shows "\<exists>v. map_of t k1 = Some v \<and>
     fst (ups_GetInner (e'\<lparr>ufaults := []\<rparr>) ctx k2) = Inr v \<and>
     (k1 \<noteq> k2 \<longrightarrow>
        fst (ups_GetInner (e'\<lparr>ufaults := []\<rparr>) ctx k1) =
          Inl (ErrCommand DB_GET_KEY_COMMAND UPS_KEY_NOT_FOUND))"
proof -
  from ups_RenameImpl_None [OF run sel] obtain v where
    v: "map_of t k1 = Some v" and e': "udbs e' = (udbs e)(n \<mapsto> tbl_put k2 v (tbl_del k1 t))"
    by blast
  let ?e = "e'\<lparr>ufaults := []\<rparr>"
  have "ufaults ?e = []" "udbs ?e n = Some (tbl_put k2 v (tbl_del k1 t))" using e' by simp_all
  from ups_GetInner_nofault [OF this(1) sel(1) this(2)] v show ?thesis
    by (auto simp: map_of_tbl_put map_of_tbl_del)
qed

text \<open>
  C4, amended. Let \<open>Rename(k1, k2)\<close> run on the selected table, whatever calls fail. When
  it succeeds, \<open>k1\<close> had a value \<open>v\<close> and a following \<open>Get(k2)\<close> returns \<open>v\<close>; when also
  \<open>k1 \<noteq> k2\<close>, a following \<open>Get(k1)\<close> fails with the library's not-found status (for
  \<open>k1 = k2\<close> the key keeps its value). When \<open>k1\<close> does not exist, the rename fails and the
  store, so also the binding of \<open>k2\<close>, is unchanged. The following \<open>Get\<close> is one whose
  calls do not fail.
\<close>

theorem rename_moves_value:
  assumes "dbir ctx = Some n" and "dbs e n = Some t"
    and "db uctx = Some num" and "udbs u num = Some t'"
    and "lmdb_RenameImpl e ctx conf k1 k2 = (r, e')"
    and "ups_RenameImpl u uctx k1 k2 = (ur, u')"
  shows
    "(r = None \<longrightarrow>
        (\<exists>v. map_of t k1 = Some v \<and>
           fst (lmdb_GetInner (e'\<lparr>faults := []\<rparr>) ctx k2) = Inr v \<and>
           (k1 \<noteq> k2 \<longrightarrow>
              fst (lmdb_GetInner (e'\<lparr>faults := []\<rparr>) ctx k1) =
                Inl (ErrCommand ''GET'' MDB_NOTFOUND)))) \<and>
     (map_of t k1 = None \<longrightarrow> r \<noteq> None \<and> dbs e' = dbs e) \<and>
     (ur = None \<longrightarrow>
        (\<exists>v. map_of t' k1 = Some v \<and>
           fst (ups_GetInner (u'\<lparr>ufaults := []\<rparr>) uctx k2) = Inr v \<and>
           (k1 \<noteq> k2 \<longrightarrow>
              fst (ups_GetInner (u'\<lparr>ufaults := []\<rparr>) uctx k1) =
                Inl (ErrCommand DB_GET_KEY_COMMAND UPS_KEY_NOT_FOUND)))) \<and>
     (map_of t' k1 = None \<longrightarrow> ur \<noteq> None \<and> udbs u' = udbs u)"
proof (intro conjI impI)
  assume "r = None"
  with assms(5) have "lmdb_RenameImpl e ctx conf k1 k2 = (None, e')" by simp
  from lmdb_get_after_rename [OF this assms(1,2)]
  show "\<exists>v. map_of t k1 = Some v \<and>
           fst (lmdb_GetInner (e'\<lparr>faults := []\<rparr>) ctx k2) = Inr v \<and>
           (k1 \<noteq> k2 \<longrightarrow>
              fst (lmdb_GetInner (e'\<lparr>faults := []\<rparr>) ctx k1) =
                Inl (ErrCommand ''GET'' MDB_NOTFOUND))" .
next
  assume "ur = None"
  with assms(6) have "ups_RenameImpl u uctx k1 k2 = (None, u')" by simp
  from ups_get_after_rename [OF this assms(3,4)]
  show "\<exists>v. map_of t' k1 = Some v \<and>
           fst (ups_GetInner (u'\<lparr>ufaults := []\<rparr>) uctx k2) = Inr v \<and>
           (k1 \<noteq> k2 \<longrightarrow>
              fst (ups_GetInner (u'\<lparr>ufaults := []\<rparr>) uctx k1) =
                Inl (ErrCommand DB_GET_KEY_COMMAND UPS_KEY_NOT_FOUND))" .
next
  assume a: "map_of t k1 = None"
  from lmdb_RenameImpl_absent [OF assms(1,2) a, of conf k2] assms(5)
  show "r \<noteq> None" and "dbs e' = dbs e" by simp_all
next
  assume a: "map_of t' k1 = None"
  from ups_RenameImpl_absent [OF assms(3,4) a, of k2] assms(6)
  show "ur \<noteq> None" and "udbs u' = udbs u" by simp_all
qed

text \<open>Renames on the concrete stores.\<close>

lemma ex_rename_runs:
  "fst (lmdb_RenameImpl ex_env ex_ctx ex_conf ''foo'' ''new'') = None \<and>
   fst (ups_RenameImpl ex_uenv ex_uctx ''foo'' ''new'') = None \<and>
   map_of ex_table ''foo'' = Some ''bar'' \<and> map_of ex_table ''nokey'' = None"
  by code_simp

theorem rename_moves_value_witness:
  "dbir ex_ctx = Some ''main'' \<and> dbs ex_env ''main'' = Some ex_table \<and>
   db ex_uctx = Some 1 \<and> udbs ex_uenv 1 = Some ex_table \<and>
   fst (lmdb_RenameImpl ex_env ex_ctx ex_conf ''foo'' ''new'') = None \<and>
   fst (lmdb_GetInner (snd (lmdb_RenameImpl ex_env ex_ctx ex_conf ''foo'' ''new'')\<lparr>faults := []\<rparr>)
          ex_ctx ''new'') = Inr ''bar'' \<and>
   fst (lmdb_GetInner (snd (lmdb_RenameImpl ex_env ex_ctx ex_conf ''foo'' ''new'')\<lparr>faults := []\<rparr>)
          ex_ctx ''foo'') = Inl (ErrCommand ''GET'' MDB_NOTFOUND) \<and>
   fst (ups_RenameImpl ex_uenv ex_uctx ''foo'' ''new'') = None \<and>
   fst (ups_GetInner (snd (ups_RenameImpl ex_uenv ex_uctx ''foo'' ''new'')\<lparr>ufaults := []\<rparr>)
          ex_uctx ''new'') = Inr ''bar'' \<and>
   fst (ups_GetInner (snd (ups_RenameImpl ex_uenv ex_uctx ''foo'' ''new'')\<lparr>ufaults := []\<rparr>)
          ex_uctx ''foo'') = Inl (ErrCommand DB_GET_KEY_COMMAND UPS_KEY_NOT_FOUND) \<and>
   fst (lmdb_RenameImpl ex_env ex_ctx ex_conf ''nokey'' ''foo2'') \<noteq> None \<and>
   dbs (snd (lmdb_RenameImpl ex_env ex_ctx ex_conf ''nokey'' ''foo2'')) = dbs ex_env \<and>
   fst (ups_RenameImpl ex_uenv ex_uctx ''nokey'' ''foo2'') \<noteq> None \<and>
   udbs (snd (ups_RenameImpl ex_uenv ex_uctx ''nokey'' ''foo2'')) = udbs ex_uenv"
proof -
  have h: "dbir ex_ctx = Some ''main''" "dbs ex_env ''main'' = Some ex_table"
    "db ex_uctx = Some 1" "udbs ex_uenv 1 = Some ex_table"
    by (simp_all add: ex_defs)
  have pair: "\<And>p. p = (fst p, snd p)" by simp
  note T1 = rename_moves_value [OF h pair pair, of ex_conf "''foo''" "''new''"]
  note T2 = rename_moves_value [OF h pair pair, of ex_conf "''nokey''" "''foo2''"]
  from T1 T2 ex_rename_runs h show ?thesis by auto
qed

text \<open>
  C4 as stated fails for \<open>k1 = k2\<close>: renaming the existing key \<open>foo\<close> to itself succeeds,
  and \<open>Get(foo)\<close> then returns its value instead of failing.
\<close>

theorem rename_moves_value_counterexample:
  "map_of ex_table ''foo'' = Some ''bar'' \<and>
   fst (lmdb_RenameImpl ex_env ex_ctx ex_conf ''foo'' ''foo'') = None \<and>
   fst (lmdb_GetInner (snd (lmdb_RenameImpl ex_env ex_ctx ex_conf ''foo'' ''foo'')) ex_ctx ''foo'') =
     Inr ''bar'' \<and>
   fst (ups_RenameImpl ex_uenv ex_uctx ''foo'' ''foo'') = None \<and>
   fst (ups_GetInner (snd (ups_RenameImpl ex_uenv ex_uctx ''foo'' ''foo'')) ex_uctx ''foo'') =
     Inr ''bar''"
  by code_simp

lemma map_of_keys: "map_of t k \<noteq> None \<longleftrightarrow> k \<in> fst ` set t"
  by (simp add: map_of_eq_None_iff)

lemma lmdb_DeleteImpl_inv:
  "dbir ctx = Some n \<Longrightarrow> dbs e n = Some t \<Longrightarrow>
   lmdb_DeleteImpl e ctx conf keys d0 = (r, d, e') \<Longrightarrow>
   r = None \<and>
   (\<exists>ds. d = d0 @ ds \<and> distinct ds \<and> set ds \<subseteq> set keys \<inter> fst ` set t \<and>
      dbs e' n = Some (filter (\<lambda>kv. fst kv \<notin> set ds) t))"
proof (induction keys arbitrary: e t d0)
  case Nil
  then show ?case by simp
next
  case (Cons k keys)
  obtain r1 e1 where d: "lmdb_DelInner e ctx conf k = (r1, e1)" by (metis prod.exhaust)
  show ?case
  proof (cases r1)
    case (Some err)
    with d Cons.prems(3) have run: "lmdb_DeleteImpl e1 ctx conf keys d0 = (r, d, e')" by simp
    from lmdb_DelInner_Some [OF d [unfolded Some]] Cons.prems(2) have "dbs e1 n = Some t" by simp
    from Cons.IH [OF Cons.prems(1) this run] show ?thesis by auto
  next
    case None
    with d Cons.prems(3) have run: "lmdb_DeleteImpl e1 ctx conf keys (d0 @ [k]) = (r, d, e')"
      by simp
    from lmdb_DelInner_None [OF d [unfolded None]] Cons.prems(1,2)
    have k: "k \<in> fst ` set t" and e1: "dbs e1 n = Some (tbl_del k t)"
      by (auto simp: map_of_keys [symmetric])
    from Cons.IH [OF Cons.prems(1) e1 run] obtain ds where
      ds: "d = (d0 @ [k]) @ ds" "distinct ds" "set ds \<subseteq> set keys \<inter> fst ` set (tbl_del k t)"
        "dbs e' n = Some (filter (\<lambda>kv. fst kv \<notin> set ds) (tbl_del k t))" and r: "r = None"
      by blast
    from ds k have "d = d0 @ (k # ds)" "distinct (k # ds)"
      "set (k # ds) \<subseteq> set (k # keys) \<inter> fst ` set t"
      "dbs e' n = Some (filter (\<lambda>kv. fst kv \<notin> set (k # ds)) t)"
      by (auto simp: tbl_del_keys tbl_del_filter)
    with r show ?thesis by blast
  qed
qed

lemma lmdb_DelInner_nofault:
  assumes "faults e = []" and "dbir ctx = Some n" and "dbs e n = Some t"
    and "cfg_env_flags conf AND MDB_RDONLY = 0"
  shows "faults (snd (lmdb_DelInner e ctx conf k)) = [] \<and>
         (fst (lmdb_DelInner e ctx conf k) = None \<longleftrightarrow> k \<in> fst ` set t)"
  using assms map_of_keys [of t k]
  by (auto simp: lmdb_DelInner_def mdb_txn_begin_def mdb_del_def mdb_del_status_def mdb_status_def
        dbi_table_def mdb_txn_commit_def mdb_txn_abort_def mdb_log_def Let_def
        lmdb_db_flag_from_env_flags_def
        lmdb_CheckResultCommand_def LMDB_OK_def EINVAL_def EACCES_def MDB_NOTFOUND_def
        split: option.splits)

lemma lmdb_DeleteImpl_nofault:
  "faults e = [] \<Longrightarrow> dbir ctx = Some n \<Longrightarrow> dbs e n = Some t \<Longrightarrow>
   cfg_env_flags conf AND MDB_RDONLY = 0 \<Longrightarrow>
   lmdb_DeleteImpl e ctx conf keys d0 = (r, d, e') \<Longrightarrow>
   set d = set d0 \<union> (set keys \<inter> fst ` set t)"
proof (induction keys arbitrary: e t d0)
  case Nil
  then show ?case by simp
next
  case (Cons k keys)
  obtain r1 e1 where d: "lmdb_DelInner e ctx conf k = (r1, e1)" by (metis prod.exhaust)
  from lmdb_DelInner_nofault [OF Cons.prems(1-4), of k] d
  have f1: "faults e1 = []" and r1: "r1 = None \<longleftrightarrow> k \<in> fst ` set t" by simp_all
  show ?case
  proof (cases r1)
    case (Some err)
    with d Cons.prems(5) have run: "lmdb_DeleteImpl e1 ctx conf keys d0 = (r, d, e')" by simp
    from lmdb_DelInner_Some [OF d [unfolded Some]] Cons.prems(3) have "dbs e1 n = Some t" by simp
    from Cons.IH [OF f1 Cons.prems(2) this Cons.prems(4) run] Some r1 show ?thesis by auto
  next
    case None
    with d Cons.prems(5) have run: "lmdb_DeleteImpl e1 ctx conf keys (d0 @ [k]) = (r, d, e')"
      by simp
    from lmdb_DelInner_None [OF d [unfolded None]] Cons.prems(2,3)
    have e1: "dbs e1 n = Some (tbl_del k t)" by auto
    from Cons.IH [OF f1 Cons.prems(2) e1 Cons.prems(4) run] None r1 show ?thesis
      by (auto simp: tbl_del_keys)
  qed
qed
lemma ups_DeleteImpl_inv:
  "db ctx = Some n \<Longrightarrow> udbs e n = Some t \<Longrightarrow>
   ups_DeleteImpl e ctx keys d0 = (r, d, e') \<Longrightarrow>
   r = None \<and>
   (\<exists>ds. d = d0 @ ds \<and> distinct ds \<and> set ds \<subseteq> set keys \<inter> fst ` set t \<and>
      udbs e' n = Some (filter (\<lambda>kv. fst kv \<notin> set ds) t))"
proof (induction keys arbitrary: e t d0)
  case Nil
  then show ?case by simp
next
  case (Cons k keys)
  obtain r1 e1 where d: "ups_DelInner e ctx k = (r1, e1)" by (metis prod.exhaust)
  show ?case
  proof (cases r1)
    case (Some err)
    with d Cons.prems(3) have run: "ups_DeleteImpl e1 ctx keys d0 = (r, d, e')" by simp
    from ups_DelInner_Some [OF d [unfolded Some]] Cons.prems(2) have "udbs e1 n = Some t" by simp
    from Cons.IH [OF Cons.prems(1) this run] show ?thesis by auto
  next
    case None
    with d Cons.prems(3) have run: "ups_DeleteImpl e1 ctx keys (d0 @ [k]) = (r, d, e')"
      by simp
    from ups_DelInner_None [OF d [unfolded None]] Cons.prems(1,2)
    have k: "k \<in> fst ` set t" and e1: "udbs e1 n = Some (tbl_del k t)"
      by (auto simp: map_of_keys [symmetric])
    from Cons.IH [OF Cons.prems(1) e1 run] obtain ds where
      ds: "d = (d0 @ [k]) @ ds" "distinct ds" "set ds \<subseteq> set keys \<inter> fst ` set (tbl_del k t)"
        "udbs e' n = Some (filter (\<lambda>kv. fst kv \<notin> set ds) (tbl_del k t))" and r: "r = None"
      by blast
    from ds k have "d = d0 @ (k # ds)" "distinct (k # ds)"
      "set (k # ds) \<subseteq> set (k # keys) \<inter> fst ` set t"
      "udbs e' n = Some (filter (\<lambda>kv. fst kv \<notin> set (k # ds)) t)"
      by (auto simp: tbl_del_keys tbl_del_filter)
    with r show ?thesis by blast
  qed
qed

lemma ups_DelInner_nofault:
  assumes "ufaults e = []" and "db ctx = Some n" and "udbs e n = Some t"
  shows "ufaults (snd (ups_DelInner e ctx k)) = [] \<and>
         (fst (ups_DelInner e ctx k) = None \<longleftrightarrow> k \<in> fst ` set t)"
  using assms map_of_keys [of t k]
  by (auto simp: ups_DelInner_def ups_db_erase_def ups_erase_status_def ups_status_def
        ups_db_table_def ups_log_def Let_def
        ups_CheckResultCommand_def UPS_SUCCESS_def UPS_INV_PARAMETER_def UPS_KEY_NOT_FOUND_def
        split: option.splits)

lemma ups_DeleteImpl_nofault:
  "ufaults e = [] \<Longrightarrow> db ctx = Some n \<Longrightarrow> udbs e n = Some t \<Longrightarrow>
   ups_DeleteImpl e ctx keys d0 = (r, d, e') \<Longrightarrow>
   set d = set d0 \<union> (set keys \<inter> fst ` set t)"
proof (induction keys arbitrary: e t d0)
  case Nil
  then show ?case by simp
next
  case (Cons k keys)
  obtain r1 e1 where d: "ups_DelInner e ctx k = (r1, e1)" by (metis prod.exhaust)
  from ups_DelInner_nofault [OF Cons.prems(1-3), of k] d
  have f1: "ufaults e1 = []" and r1: "r1 = None \<longleftrightarrow> k \<in> fst ` set t" by simp_all
  show ?case
  proof (cases r1)
    case (Some err)
    with d Cons.prems(4) have run: "ups_DeleteImpl e1 ctx keys d0 = (r, d, e')" by simp
    from ups_DelInner_Some [OF d [unfolded Some]] Cons.prems(3) have "udbs e1 n = Some t" by simp
    from Cons.IH [OF f1 Cons.prems(2) this run] Some r1 show ?thesis by auto
  next
    case None
    with d Cons.prems(4) have run: "ups_DeleteImpl e1 ctx keys (d0 @ [k]) = (r, d, e')"
      by simp
    from ups_DelInner_None [OF d [unfolded None]] Cons.prems(2,3)
    have e1: "udbs e1 n = Some (tbl_del k t)" by auto
    from Cons.IH [OF f1 Cons.prems(2) e1 run] None r1 show ?thesis
      by (auto simp: tbl_del_keys)
  qed
qed

lemma map_of_filter_out:
  "k \<in> set ds \<Longrightarrow> map_of (filter (\<lambda>kv. fst kv \<notin> set ds) t) k = None"
  by (auto simp: map_of_eq_None_iff)

text \<open>
  C7. A multi-key \<open>Delete\<close> on the selected table returns success whatever calls fail
  and whichever keys are absent. The keys it reports are keys of the request that were
  in the table, each once; the table afterwards is the table before without exactly
  the reported keys; and a following \<open>Get\<close> of a reported key, when its calls do not
  fail, fails with the library's not-found status. When no call fails (on LMDB, in a
  writable environment) the reported keys are all the requested keys that were in the
  table.
\<close>

theorem delete_skips_failures:
  assumes "dbir ctx = Some n" and "dbs e n = Some t"
    and "lmdb_DeleteImpl e ctx conf keys [] = (r, deleted, e')"
    and "db uctx = Some num" and "udbs u num = Some t'"
    and "ups_DeleteImpl u uctx keys [] = (ur, udeleted, u')"
  shows
    "r = None \<and> distinct deleted \<and> set deleted \<subseteq> set keys \<inter> fst ` set t \<and>
     dbs e' n = Some (filter (\<lambda>kv. fst kv \<notin> set deleted) t) \<and>
     (\<forall>k \<in> set deleted.
        fst (lmdb_GetInner (e'\<lparr>faults := []\<rparr>) ctx k) = Inl (ErrCommand ''GET'' MDB_NOTFOUND)) \<and>
     (faults e = [] \<and> cfg_env_flags conf AND MDB_RDONLY = 0 \<longrightarrow>
        set deleted = set keys \<inter> fst ` set t) \<and>
     ur = None \<and> distinct udeleted \<and> set udeleted \<subseteq> set keys \<inter> fst ` set t' \<and>
     udbs u' num = Some (filter (\<lambda>kv. fst kv \<notin> set udeleted) t') \<and>
     (\<forall>k \<in> set udeleted.
        fst (ups_GetInner (u'\<lparr>ufaults := []\<rparr>) uctx k) =
          Inl (ErrCommand DB_GET_KEY_COMMAND UPS_KEY_NOT_FOUND)) \<and>
     (ufaults u = [] \<longrightarrow> set udeleted = set keys \<inter> fst ` set t')"
proof -
  from lmdb_DeleteImpl_inv [OF assms(1-3)]
  have l: "r = None" "distinct deleted" "set deleted \<subseteq> set keys \<inter> fst ` set t"
    "dbs e' n = Some (filter (\<lambda>kv. fst kv \<notin> set deleted) t)"
    by auto
  have lg: "fst (lmdb_GetInner (e'\<lparr>faults := []\<rparr>) ctx k) = Inl (ErrCommand ''GET'' MDB_NOTFOUND)"
    if "k \<in> set deleted" for k
  proof -
    have "faults (e'\<lparr>faults := []\<rparr>) = []"
      "dbs (e'\<lparr>faults := []\<rparr>) n = Some (filter (\<lambda>kv. fst kv \<notin> set deleted) t)"
      using l(4) by simp_all
    from lmdb_GetInner_nofault [OF this(1) assms(1) this(2), of k] that show ?thesis
      by (simp add: map_of_filter_out)
  qed
  have lc: "set deleted = set keys \<inter> fst ` set t"
    if "faults e = []" "cfg_env_flags conf AND MDB_RDONLY = 0"
    using lmdb_DeleteImpl_nofault [OF that(1) assms(1,2) that(2) assms(3)] by simp
  from ups_DeleteImpl_inv [OF assms(4-6)]
  have u: "ur = None" "distinct udeleted" "set udeleted \<subseteq> set keys \<inter> fst ` set t'"
    "udbs u' num = Some (filter (\<lambda>kv. fst kv \<notin> set udeleted) t')"
    by auto
  have ug: "fst (ups_GetInner (u'\<lparr>ufaults := []\<rparr>) uctx k) =
      Inl (ErrCommand DB_GET_KEY_COMMAND UPS_KEY_NOT_FOUND)"
    if "k \<in> set udeleted" for k
  proof -
    have "ufaults (u'\<lparr>ufaults := []\<rparr>) = []"
      "udbs (u'\<lparr>ufaults := []\<rparr>) num = Some (filter (\<lambda>kv. fst kv \<notin> set udeleted) t')"
      using u(4) by simp_all
    from ups_GetInner_nofault [OF this(1) assms(4) this(2), of k] that show ?thesis
      by (simp add: map_of_filter_out)
  qed
  have uc: "set udeleted = set keys \<inter> fst ` set t'" if "ufaults u = []"
    using ups_DeleteImpl_nofault [OF that assms(4-6)] by simp
  from l lg lc u ug uc show ?thesis by blast
qed

text \<open>A delete of a present key, an absent key and the present key again.\<close>

lemma ex_delete_runs:
  "fst (snd (lmdb_DeleteImpl ex_env ex_ctx ex_conf [''foo'', ''nokey'', ''foo''] [])) = [''foo''] \<and>
   fst (snd (ups_DeleteImpl ex_uenv ex_uctx [''foo'', ''nokey'', ''foo''] [])) = [''foo'']"
  by code_simp

theorem delete_skips_failures_witness:
  "dbir ex_ctx = Some ''main'' \<and> dbs ex_env ''main'' = Some ex_table \<and>
   db ex_uctx = Some 1 \<and> udbs ex_uenv 1 = Some ex_table \<and>
   lmdb_DeleteImpl ex_env ex_ctx ex_conf [''foo'', ''nokey'', ''foo''] [] =
     (None, [''foo''], snd (snd (lmdb_DeleteImpl ex_env ex_ctx ex_conf [''foo'', ''nokey'', ''foo''] []))) \<and>
   fst (lmdb_GetInner
          (snd (snd (lmdb_DeleteImpl ex_env ex_ctx ex_conf [''foo'', ''nokey'', ''foo''] []))
             \<lparr>faults := []\<rparr>) ex_ctx ''foo'') = Inl (ErrCommand ''GET'' MDB_NOTFOUND) \<and>
   ups_DeleteImpl ex_uenv ex_uctx [''foo'', ''nokey'', ''foo''] [] =
     (None, [''foo''], snd (snd (ups_DeleteImpl ex_uenv ex_uctx [''foo'', ''nokey'', ''foo''] []))) \<and>
   fst (ups_GetInner
          (snd (snd (ups_DeleteImpl ex_uenv ex_uctx [''foo'', ''nokey'', ''foo''] []))
             \<lparr>ufaults := []\<rparr>) ex_uctx ''foo'') =
     Inl (ErrCommand DB_GET_KEY_COMMAND UPS_KEY_NOT_FOUND)"
proof -
  have h: "dbir ex_ctx = Some ''main''" "dbs ex_env ''main'' = Some ex_table"
    "db ex_uctx = Some 1" "udbs ex_uenv 1 = Some ex_table"
    by (simp_all add: ex_defs)
  have triple: "\<And>p. p = (fst p, fst (snd p), snd (snd p))" by simp
  note T = delete_skips_failures [OF h(1,2) triple h(3,4) triple,
      of ex_conf "[''foo'', ''nokey'', ''foo'']"]
  from T ex_delete_runs h show ?thesis
    by (auto simp: prod_eq_iff)
qed

section \<open>Keys in a range\<close>

lemma lmdb_keys_loop_nofault:
  "faults e = [] \<Longrightarrow>
   lmdb_keys_loop e ks a b limit ret =
     (ret @ take (unat limit - length ret) (filter (\<lambda>k. a < k \<and> k < b) ks), e)"
proof (induction ks arbitrary: ret)
  case Nil
  then show ?case
    by (subst lmdb_keys_loop.simps) (simp add: mdb_cursor_get_Nil MDB_NOTFOUND_def LMDB_OK_def)
next
  case (Cons k ks)
  note nf = Cons.prems
  show ?case
  proof (cases "length ret < unat limit")
    case False
    then show ?thesis
      by (subst lmdb_keys_loop.simps) (simp add: mdb_cursor_get_Cons [OF nf] LMDB_OK_def)
  next
    case True
    then show ?thesis
      by (subst lmdb_keys_loop.simps)
         (auto simp: mdb_cursor_get_Cons [OF nf] LMDB_OK_def Cons.IH [OF nf] take_Cons')
  qed
qed

text \<open>
  On a store whose calls do not fail, \<open>KeysInRange\<close> of LMDB returns the first \<open>limit\<close>
  keys strictly between the bounds, in the order of the table.
\<close>

lemma lmdb_KeysImpl_nofault:
  assumes "faults e = []" and "dbir ctx = Some n" and "dbs e n = Some t"
  shows "lmdb_KeysImpl e ctx a b limit ret =
     (None, ret @ take (unat limit - length ret) (filter (\<lambda>k. a < k \<and> k < b) (map fst t)),
      e\<lparr>trace := trace e @ [TxnBegin, TxnAbort]\<rparr>)"
  using assms
  by (simp add: lmdb_KeysImpl_def mdb_txn_begin_nofault lmdb_CheckResultCommand_def LMDB_OK_def
        mdb_cursor_open_nofault lmdb_keys_loop_nofault mdb_txn_abort_def mdb_log_def)

lemma ups_keys_loop_nofault:
  "ufaults e = [] \<Longrightarrow>
   ups_keys_loop e ks a b limit ret =
     (None,
      if length ret < unat limit
      then ret @ take (unat limit - length ret) (filter (\<lambda>k. a < k \<and> k < b) ks)
      else ret @ filter (\<lambda>k. a < k \<and> k < b) (take 1 ks),
      e)"
proof (induction ks arbitrary: ret)
  case Nil
  then show ?case
    by (subst ups_keys_loop.simps)
       (simp add: ups_cursor_move_Nil UPS_KEY_NOT_FOUND_def UPS_SUCCESS_def)
next
  case (Cons k ks)
  note nf = Cons.prems
  show ?case
  proof (cases "length ret < unat limit")
    case False
    then show ?thesis
      by (subst ups_keys_loop.simps)
         (auto simp: ups_cursor_move_Cons [OF nf] UPS_SUCCESS_def Let_def)
  next
    case True
    then show ?thesis
      by (subst ups_keys_loop.simps)
         (auto simp: ups_cursor_move_Cons [OF nf] UPS_SUCCESS_def Let_def Cons.IH [OF nf]
            take_Cons')
  qed
qed

text \<open>
  On upscaledb it does so for a limit above 0 (above the size of \<open>ret\<close> on entry);
  otherwise the body of the \<open>do ... while\<close> loop still runs once, and the first key of
  the table is returned when it is in the range.
\<close>

lemma ups_KeysImpl_nofault:
  assumes "ufaults u = []" and "db uctx = Some num" and "udbs u num = Some t"
  shows "ups_KeysImpl u uctx a b limit ret =
     (None,
      if length ret < unat limit
      then ret @ take (unat limit - length ret) (filter (\<lambda>k. a < k \<and> k < b) (map fst t))
      else ret @ filter (\<lambda>k. a < k \<and> k < b) (take 1 (map fst t)),
      u)"
  using assms
  by (simp add: ups_KeysImpl_def ups_cursor_create_nofault ups_CheckResultCommand_def
        UPS_SUCCESS_def ups_keys_loop_nofault)

text \<open>
  C6 at the limit 0. On the concrete store, \<open>KeysInRange(a, z, 0)\<close> of upscaledb returns
  the key \<open>foo\<close>, one key more than the limit allows; LMDB returns no key.
\<close>

theorem keys_limit_zero:
  "ups_KeysImpl ex_uenv ex_uctx ''a'' ''z'' 0 [] = (None, [''foo''], ex_uenv) \<and>
   lmdb_KeysImpl ex_env ex_ctx ''a'' ''z'' 0 [] =
     (None, [], ex_env\<lparr>trace := [TxnBegin, TxnAbort]\<rparr>)"
  using ups_KeysImpl_nofault [of ex_uenv ex_uctx 1 ex_table "''a''" "''z''" 0 "[]"]
    lmdb_KeysImpl_nofault [of ex_env ex_ctx "''main''" ex_table "''a''" "''z''" 0 "[]"]
  by (simp add: ex_defs)

section \<open>Disconnect\<close>

text \<open>
  C5 on a connection without a handle. \<open>DBConnection::Disconnect\<close> of upscaledb
  dereferences the null handle; the \<open>Disconnect\<close> of the base class and of the allocator,
  and \<open>upscaledb_close\<close>, succeed there and do nothing.
\<close>

theorem disconnect_without_handle:
  "ups_Disconnect e None = NullDeref \<and>
   ups_base_Disconnect e None = (None, None, e) \<and>
   ups_alloc_Disconnect e None = (None, None, e) \<and>
   upscaledb_close e None = (None, e)"
  by (simp add: ups_Disconnect_def ups_base_Disconnect_def ups_alloc_Disconnect_def
        ups_alloc_IsConnected_def upscaledb_close_def)


section \<open>Select\<close>

lemma lmdb_select_lazy:
  "db_name ctx = Some name \<Longrightarrow> lmdb_select e (Some ctx) (Some name) fl = (LMDB_OK, Some ctx, e)"
  by (simp add: lmdb_select_def)

lemma lmdb_select_result:
  assumes "lmdb_select e h (Some name) fl = (rc, h', e')"
  shows "(rc \<noteq> 0 \<longrightarrow> h' = h \<and> (\<forall>d. DbiClose d \<notin> set (drop (length (trace e)) (trace e')))) \<and>
         (rc = 0 \<longrightarrow> (\<exists>ctx. h' = Some ctx \<and> db_name ctx = Some name))"
  using assms
  by (auto simp: lmdb_select_def mdb_txn_begin_def mdb_dbi_open_def mdb_txn_commit_def
        mdb_txn_abort_def mdb_dbi_close_def mdb_status_def mdb_log_def LMDB_OK_def EINVAL_def
        MDB_NOTFOUND_def EACCES_def
        split: option.splits list.splits if_splits prod.splits)

lemma lmdb_count_loop_keeps:
  "lmdb_count_loop e cur sz = (sz', e') \<Longrightarrow> trace e' = trace e \<and> dbs e' = dbs e"
proof (induction e cur sz arbitrary: sz' e' rule: lmdb_count_loop.induct)
  case (1 e cur sz)
  obtain rc key cur1 e1 where g: "mdb_cursor_get e cur = (rc, key, cur1, e1)"
    by (metis prod_cases4)
  note k1 = mdb_cursor_get_keeps [OF g]
  show ?case
  proof (cases "rc = LMDB_OK")
    case False
    with "1.prems" g k1 show ?thesis
      by (subst (asm) lmdb_count_loop.simps) auto
  next
    case True
    with "1.prems" g have "lmdb_count_loop e1 cur1 (sz + 1) = (sz', e')"
      by (subst (asm) lmdb_count_loop.simps) simp
    from "1.IH" [OF g [symmetric] refl refl True this] k1 show ?thesis by simp
  qed
qed

lemma lmdb_count_loop_nofault:
  "faults e = [] \<Longrightarrow> lmdb_count_loop e ks sz = (sz + length ks, e)"
proof (induction ks arbitrary: sz)
  case Nil
  then show ?case
    by (subst lmdb_count_loop.simps) (simp add: mdb_cursor_get_Nil MDB_NOTFOUND_def LMDB_OK_def)
next
  case (Cons k ks)
  then show ?case
    by (subst lmdb_count_loop.simps) (simp add: mdb_cursor_get_Cons LMDB_OK_def)
qed

lemma lmdb_DBkcountImpl_trace:
  assumes "lmdb_DBkcountImpl e ctx = (r, e')"
  shows "\<exists>evs. trace e' = trace e @ evs \<and> set evs \<subseteq> {TxnBegin, TxnAbort}"
proof -
  obtain rc txn e1 where b: "mdb_txn_begin e MDB_RDONLY = (rc, txn, e1)" by (metis prod_cases3)
  note kb = mdb_txn_begin_keeps [OF b]
  obtain rc2 cur e2 where o: "mdb_cursor_open e1 txn (dbir ctx) = (rc2, cur, e2)"
    by (metis prod_cases3)
  note ko = mdb_cursor_open_keeps [OF o]
  obtain sz e3 where l: "lmdb_count_loop e2 cur 0 = (sz, e3)" by (metis prod.exhaust)
  note kl = lmdb_count_loop_keeps [OF l]
  from assms b o l kb ko kl show ?thesis
    by (auto simp: lmdb_DBkcountImpl_def lmdb_CheckResultCommand_def LMDB_OK_def
          split: if_splits)
qed

lemma lmdb_DBkcountImpl_nofault:
  assumes "faults e = []" and "dbir ctx = Some n" and "dbs e n = Some t"
  shows "lmdb_DBkcountImpl e ctx = (Inr (length t), e\<lparr>trace := trace e @ [TxnBegin, TxnAbort]\<rparr>)"
  using assms
  by (simp add: lmdb_DBkcountImpl_def mdb_txn_begin_nofault lmdb_CheckResultCommand_def LMDB_OK_def
        mdb_cursor_open_nofault lmdb_count_loop_nofault mdb_txn_abort_def mdb_log_def)

lemma lmdb_SelectImpl_lazy:
  assumes "handle conn = Some ctx" and "db_name ctx = Some (c_str name)"
  shows "lmdb_SelectImpl e conn name =
     (Inr \<lparr>info_name = name, info_flag = True,
           info_kcount = (case fst (lmdb_DBkcountImpl e ctx) of Inl err \<Rightarrow> 0 | Inr kcount \<Rightarrow> kcount)\<rparr>,
      conn\<lparr>config := (config conn)\<lparr>cfg_db_name := name\<rparr>\<rparr>,
      snd (lmdb_DBkcountImpl e ctx))"
  using assms
  by (simp add: lmdb_SelectImpl_def lmdb_select_lazy lmdb_CheckResultCommand_def lmdb_DBkcount_def
        Let_def split: prod.splits)

lemma lmdb_SelectImpl_result:
  assumes "lmdb_SelectImpl e conn name = (r, conn', e')"
  shows "(\<forall>err. r = Inl err \<longrightarrow>
            conn' = conn \<and> (\<forall>d. DbiClose d \<notin> set (drop (length (trace e)) (trace e')))) \<and>
         (\<forall>info. r = Inr info \<longrightarrow>
            (\<exists>ctx. handle conn' = Some ctx \<and> db_name ctx = Some (c_str name)) \<and>
            cfg_db_name (config conn') = name)"
proof -
  obtain rc h e1 where
    s: "lmdb_select e (handle conn) (Some (c_str name)) (cfg_env_flags (config conn)) = (rc, h, e1)"
    by (metis prod_cases3)
  note sr = lmdb_select_result [OF s]
  show ?thesis
  proof (cases "rc = 0")
    case False
    with assms s sr show ?thesis
      by (auto simp: lmdb_SelectImpl_def lmdb_CheckResultCommand_def LMDB_OK_def)
  next
    case True
    with assms s sr show ?thesis
      by (auto simp: lmdb_SelectImpl_def lmdb_CheckResultCommand_def LMDB_OK_def Let_def
            split: prod.splits)
  qed
qed

lemma upscaledb_select_lazy:
  "cur_db ctx = num \<Longrightarrow> upscaledb_select e (Some ctx) num = (UPS_SUCCESS, Some ctx, e)"
  by (simp add: upscaledb_select_def)

lemma upscaledb_select_result:
  assumes "upscaledb_select e h num = (st, h', e')"
  shows "(st \<noteq> 0 \<longrightarrow> h' = h \<and> (\<forall>d. CloseDb d \<notin> set (drop (length (utrace e)) (utrace e')))) \<and>
         (st = 0 \<longrightarrow> (\<exists>ctx. h' = Some ctx \<and> cur_db ctx = num))"
  using assms
  by (auto simp: upscaledb_select_def ups_env_open_db_def ups_db_close_def ups_status_def
        ups_log_def UPS_SUCCESS_def EINVAL_def UPS_DATABASE_NOT_FOUND_def
        split: option.splits list.splits if_splits prod.splits)

lemma ups_DBkcountImpl_keeps:
  "ups_DBkcountImpl e ctx = (r, e') \<Longrightarrow> utrace e' = utrace e \<and> udbs e' = udbs e"
  by (auto simp: ups_DBkcountImpl_def ups_db_count_def ups_status_def ups_CheckResultCommand_def
        split: option.splits list.splits if_splits prod.splits)

lemma ups_DBkcountImpl_nofault:
  assumes "ufaults e = []" and "db ctx = Some n" and "udbs e n = Some t"
  shows "ups_DBkcountImpl e ctx = (Inr (length t), e)"
  using assms
  by (simp add: ups_DBkcountImpl_def ups_db_count_def ups_status_nofault ups_db_table_def
        ups_CheckResultCommand_def UPS_SUCCESS_def)

lemma ups_SelectImpl_lazy:
  assumes "conv name = Some (cur_db ctx)"
  shows "ups_SelectImpl conv e (Some ctx) name =
     (Inr \<lparr>info_name = name, info_flag = True,
           info_kcount = (case fst (ups_DBkcountImpl e ctx) of Inl err \<Rightarrow> 0 | Inr kcount \<Rightarrow> kcount)\<rparr>,
      Some ctx, snd (ups_DBkcountImpl e ctx))"
  using assms
  by (simp add: ups_SelectImpl_def upscaledb_select_lazy ups_DBkcount_def UPS_SUCCESS_def
        split: prod.splits)

lemma ups_SelectImpl_result:
  assumes "ups_SelectImpl conv e h name = (r, h', e')"
  shows "(\<forall>err. r = Inl err \<longrightarrow>
            h' = h \<and> (\<forall>d. CloseDb d \<notin> set (drop (length (utrace e)) (utrace e')))) \<and>
         (\<forall>info. r = Inr info \<longrightarrow> (\<exists>ctx. h' = Some ctx \<and> conv name = Some (cur_db ctx)))"
proof (cases "conv name")
  case None
  with assms show ?thesis by (auto simp: ups_SelectImpl_def)
next
  case (Some num)
  obtain st h1 e1 where s: "upscaledb_select e h num = (st, h1, e1)" by (metis prod_cases3)
  note sr = upscaledb_select_result [OF s]
  show ?thesis
  proof (cases "st = 0")
    case False
    with assms s sr Some show ?thesis
      by (auto simp: ups_SelectImpl_def UPS_SUCCESS_def)
  next
    case True
    with assms s sr Some show ?thesis
      by (auto simp: ups_SelectImpl_def UPS_SUCCESS_def split: prod.splits)
  qed
qed

text \<open>
  What holds of a select. When the name is the one of the open table (on upscaledb:
  converts to the number of the open database), \<open>SelectTable\<close> succeeds whatever calls
  fail, leaves the handle as it is, opens and closes no table (the only library calls
  are those of the key count), and returns the name with the key count computed by
  that call, which is the number of keys of the table when no call fails. A successful
  \<open>SelectTable\<close> leaves the connection in that situation for its name, so that a second
  call in a row is such a lazy one. When \<open>SelectTable\<close> of any name reports an error,
  the connection is what it was (handle, open table and current name) and no table
  was closed.
\<close>

lemma select_lazy_or_reported:
  assumes "handle conn = Some ctx" and "db_name ctx = Some (c_str name)"
    and "conv uname = Some (cur_db uctx)"
    and "lmdb_SelectImpl e' conn' name' = (r, conn'', e'')"
    and "ups_SelectImpl conv u' h' uname' = (ur, h'', u'')"
  shows
    "(\<exists>k evs e1.
        lmdb_SelectImpl e conn name =
          (Inr \<lparr>info_name = name, info_flag = True, info_kcount = k\<rparr>,
           conn\<lparr>config := (config conn)\<lparr>cfg_db_name := name\<rparr>\<rparr>, e1) \<and>
        trace e1 = trace e @ evs \<and> set evs \<subseteq> {TxnBegin, TxnAbort} \<and>
        (\<forall>n t. faults e = [] \<and> dbir ctx = Some n \<and> dbs e n = Some t \<longrightarrow> k = length t)) \<and>
     (\<exists>k u1.
        ups_SelectImpl conv u (Some uctx) uname =
          (Inr \<lparr>info_name = uname, info_flag = True, info_kcount = k\<rparr>, Some uctx, u1) \<and>
        utrace u1 = utrace u \<and>
        (\<forall>num t. ufaults u = [] \<and> db uctx = Some num \<and> udbs u num = Some t \<longrightarrow> k = length t)) \<and>
     (\<forall>err. r = Inl err \<longrightarrow>
        conn'' = conn' \<and> (\<forall>d. DbiClose d \<notin> set (drop (length (trace e')) (trace e'')))) \<and>
     (\<forall>info. r = Inr info \<longrightarrow>
        (\<exists>c. handle conn'' = Some c \<and> db_name c = Some (c_str name')) \<and>
        cfg_db_name (config conn'') = name') \<and>
     (\<forall>err. ur = Inl err \<longrightarrow>
        h'' = h' \<and> (\<forall>d. CloseDb d \<notin> set (drop (length (utrace u')) (utrace u'')))) \<and>
     (\<forall>info. ur = Inr info \<longrightarrow> (\<exists>c. h'' = Some c \<and> conv uname' = Some (cur_db c)))"
proof -
  obtain r1 e1 where c: "lmdb_DBkcountImpl e ctx = (r1, e1)" by (metis prod.exhaust)
  from lmdb_DBkcountImpl_trace [OF c] obtain evs where
    evs: "trace e1 = trace e @ evs" "set evs \<subseteq> {TxnBegin, TxnAbort}" by blast
  have fresh: "(case r1 of Inl err \<Rightarrow> 0 | Inr kcount \<Rightarrow> kcount) = length t"
    if "faults e = [] \<and> dbir ctx = Some n \<and> dbs e n = Some t" for n t
    using lmdb_DBkcountImpl_nofault [of e ctx n t] that c by simp
  have A: "\<exists>k evs e1.
        lmdb_SelectImpl e conn name =
          (Inr \<lparr>info_name = name, info_flag = True, info_kcount = k\<rparr>,
           conn\<lparr>config := (config conn)\<lparr>cfg_db_name := name\<rparr>\<rparr>, e1) \<and>
        trace e1 = trace e @ evs \<and> set evs \<subseteq> {TxnBegin, TxnAbort} \<and>
        (\<forall>n t. faults e = [] \<and> dbir ctx = Some n \<and> dbs e n = Some t \<longrightarrow> k = length t)"
    using lmdb_SelectImpl_lazy [OF assms(1,2), of e] c evs fresh
    by (intro exI [of _ "case r1 of Inl err \<Rightarrow> 0 | Inr kcount \<Rightarrow> kcount"] exI [of _ evs]
          exI [of _ e1]) auto
  obtain ur1 u1 where uc: "ups_DBkcountImpl u uctx = (ur1, u1)" by (metis prod.exhaust)
  have ufresh: "(case ur1 of Inl err \<Rightarrow> 0 | Inr kcount \<Rightarrow> kcount) = length t"
    if "ufaults u = [] \<and> db uctx = Some num \<and> udbs u num = Some t" for num t
    using ups_DBkcountImpl_nofault [of u uctx num t] that uc by simp
  have B: "\<exists>k u1.
        ups_SelectImpl conv u (Some uctx) uname =
          (Inr \<lparr>info_name = uname, info_flag = True, info_kcount = k\<rparr>, Some uctx, u1) \<and>
        utrace u1 = utrace u \<and>
        (\<forall>num t. ufaults u = [] \<and> db uctx = Some num \<and> udbs u num = Some t \<longrightarrow> k = length t)"
    using ups_SelectImpl_lazy [where conv = conv and name = uname and ctx = uctx and e = u, OF assms(3)] uc ups_DBkcountImpl_keeps [OF uc] ufresh
    by (intro exI [of _ "case ur1 of Inl err \<Rightarrow> 0 | Inr kcount \<Rightarrow> kcount"] exI [of _ u1]) auto
  note R = lmdb_SelectImpl_result [OF assms(4)]
  note UR = ups_SelectImpl_result [OF assms(5)]
  show ?thesis
    by (intro conjI; (rule A | rule B | rule conjunct1 [OF R] | rule conjunct2 [OF R]
          | rule conjunct1 [OF UR] | rule conjunct2 [OF UR]))
qed

text \<open>Selections on the concrete stores.\<close>

lemma ex_select_lmdb:
  "fst (lmdb_SelectImpl ex_env ex_conn ''main'') =
     Inr \<lparr>info_name = ''main'', info_flag = True, info_kcount = 3\<rparr> \<and>
   trace (snd (snd (lmdb_SelectImpl ex_env ex_conn ''main''))) = [TxnBegin, TxnAbort] \<and>
   fst (lmdb_SelectImpl (ex_env\<lparr>faults := [5]\<rparr>) ex_conn ''other'') =
     Inl (ErrCommand ''SELECT'' 5)"
  by code_simp

lemma ex_convert: "ConvertFromString_u16 ''1'' = Some 1" "ConvertFromString_u16 ''2'' = Some 2"
  "ConvertFromString_u16 ''foo'' = None"
  by (simp_all add: ConvertFromString_u16_def)

lemma ex_select_ups:
  "fst (ups_SelectImpl ConvertFromString_u16 ex_uenv (Some ex_uctx) ''1'') =
     Inr \<lparr>info_name = ''1'', info_flag = True, info_kcount = 3\<rparr> \<and>
   fst (ups_SelectImpl ConvertFromString_u16 ex_uenv (Some ex_uctx) ''2'') =
     Inl (ErrCommand ''SELECT'' UPS_DATABASE_NOT_FOUND)"
  by (simp add: ups_SelectImpl_def ex_convert upscaledb_select_def ups_env_open_db_def
        ups_status_def ups_log_def ups_DBkcount_def ups_DBkcountImpl_def ups_db_count_def
        ups_db_table_def ups_CheckResultCommand_def UPS_SUCCESS_def UPS_DATABASE_NOT_FOUND_def
        ex_defs)

lemmas ex_select_runs = ex_select_lmdb ex_select_ups

lemma select_lazy_or_reported_example:
  "handle ex_conn = Some ex_ctx \<and> db_name ex_ctx = Some (c_str ''main'') \<and>
   ConvertFromString_u16 ''1'' = Some (cur_db ex_uctx) \<and>
   fst (lmdb_SelectImpl ex_env ex_conn ''main'') =
     Inr \<lparr>info_name = ''main'', info_flag = True, info_kcount = 3\<rparr> \<and>
   fst (snd (lmdb_SelectImpl ex_env ex_conn ''main'')) = ex_conn \<and>
   trace (snd (snd (lmdb_SelectImpl ex_env ex_conn ''main''))) = [TxnBegin, TxnAbort] \<and>
   fst (ups_SelectImpl ConvertFromString_u16 ex_uenv (Some ex_uctx) ''1'') =
     Inr \<lparr>info_name = ''1'', info_flag = True, info_kcount = 3\<rparr> \<and>
   fst (snd (ups_SelectImpl ConvertFromString_u16 ex_uenv (Some ex_uctx) ''1'')) = Some ex_uctx \<and>
   fst (lmdb_SelectImpl (ex_env\<lparr>faults := [5]\<rparr>) ex_conn ''other'') =
     Inl (ErrCommand ''SELECT'' 5) \<and>
   fst (snd (lmdb_SelectImpl (ex_env\<lparr>faults := [5]\<rparr>) ex_conn ''other'')) = ex_conn \<and>
   fst (ups_SelectImpl ConvertFromString_u16 ex_uenv (Some ex_uctx) ''2'') =
     Inl (ErrCommand ''SELECT'' UPS_DATABASE_NOT_FOUND) \<and>
   fst (snd (ups_SelectImpl ConvertFromString_u16 ex_uenv (Some ex_uctx) ''2'')) = Some ex_uctx"
proof -
  have h: "handle ex_conn = Some ex_ctx" "db_name ex_ctx = Some (c_str ''main'')"
    "ConvertFromString_u16 ''1'' = Some (cur_db ex_uctx)"
    by (simp_all add: ex_defs c_str_def ex_convert)
  have same: "ex_conn\<lparr>config := (config ex_conn)\<lparr>cfg_db_name := ''main''\<rparr>\<rparr> = ex_conn"
    by (simp add: ex_defs)
  have triple: "\<And>p. p = (fst p, fst (snd p), snd (snd p))" by simp
  note T = select_lazy_or_reported [where e = ex_env and u = ex_uenv and conv = ConvertFromString_u16
      and e' = "ex_env\<lparr>faults := [5]\<rparr>" and conn' = ex_conn and name' = "''other''"
      and u' = ex_uenv and h' = "Some ex_uctx" and uname' = "''2''", OF h triple triple]
  from T [THEN conjunct1] obtain k evs e1 where
    "lmdb_SelectImpl ex_env ex_conn ''main'' =
       (Inr \<lparr>info_name = ''main'', info_flag = True, info_kcount = k\<rparr>,
        ex_conn\<lparr>config := (config ex_conn)\<lparr>cfg_db_name := ''main''\<rparr>\<rparr>, e1)"
    by blast
  then have c1: "fst (snd (lmdb_SelectImpl ex_env ex_conn ''main'')) = ex_conn"
    by (simp only: same fst_conv snd_conv)
  from T [THEN conjunct2, THEN conjunct1] obtain k' u1 where
    "ups_SelectImpl ConvertFromString_u16 ex_uenv (Some ex_uctx) ''1'' =
       (Inr \<lparr>info_name = ''1'', info_flag = True, info_kcount = k'\<rparr>, Some ex_uctx, u1)"
    by blast
  then have c2: "fst (snd (ups_SelectImpl ConvertFromString_u16 ex_uenv (Some ex_uctx) ''1'')) =
      Some ex_uctx"
    by (simp only: fst_conv snd_conv)
  from T [THEN conjunct2, THEN conjunct2, THEN conjunct1] ex_select_runs
  have c3: "fst (snd (lmdb_SelectImpl (ex_env\<lparr>faults := [5]\<rparr>) ex_conn ''other'')) = ex_conn"
    by blast
  from T [THEN conjunct2, THEN conjunct2, THEN conjunct2, THEN conjunct2, THEN conjunct1]
    ex_select_runs
  have c4: "fst (snd (ups_SelectImpl ConvertFromString_u16 ex_uenv (Some ex_uctx) ''2'')) =
      Some ex_uctx"
    by blast
  from c1 c2 c3 c4 h ex_select_runs show ?thesis by (simp only: simp_thms)
qed

text \<open>
  C8 when the opening of another table fails at its commit. \<open>lmdb_select\<close> opens the
  table inside a transaction and does not look at the status of \<open>mdb_txn_commit\<close>. On
  the concrete LMDB store with the table \<open>main\<close> open, when the commit of the select of
  \<open>other\<close> fails, the table \<open>other\<close> does not exist afterwards, and still the handle
  of \<open>main\<close> is closed, \<open>other\<close> is recorded as the open and the current table, and
  \<open>SelectTable\<close> reports success, with the key count 0 of a count that failed. When it
  is \<open>mdb_dbi_open\<close> that fails, the status is looked at: \<open>SelectTable\<close> reports the
  error and the connection is what it was.
\<close>

theorem select_commit_failure_ignored:
  "handle ex_conn = Some \<lparr>dbir = Some ''main'', db_name = Some ''main''\<rparr> \<and>
   fst (lmdb_SelectImpl ex_env_commit_fails ex_conn ''other'') =
     Inr \<lparr>info_name = ''other'', info_flag = True, info_kcount = 0\<rparr> \<and>
   handle (fst (snd (lmdb_SelectImpl ex_env_commit_fails ex_conn ''other''))) =
     Some \<lparr>dbir = Some ''other'', db_name = Some ''other''\<rparr> \<and>
   cfg_db_name (config (fst (snd (lmdb_SelectImpl ex_env_commit_fails ex_conn ''other'')))) =
     ''other'' \<and>
   trace (snd (snd (lmdb_SelectImpl ex_env_commit_fails ex_conn ''other''))) =
     [TxnBegin, DbiOpen ''other'' 0, TxnCommit 7, DbiClose (Some ''main''), TxnBegin, TxnAbort] \<and>
   dbs (snd (snd (lmdb_SelectImpl ex_env_commit_fails ex_conn ''other''))) ''other'' = None \<and>
   fst (lmdb_SelectImpl ex_env_open_fails ex_conn ''other'') = Inl (ErrCommand ''SELECT'' 7) \<and>
   fst (snd (lmdb_SelectImpl ex_env_open_fails ex_conn ''other'')) = ex_conn \<and>
   trace (snd (snd (lmdb_SelectImpl ex_env_open_fails ex_conn ''other''))) =
     [TxnBegin, DbiOpen ''other'' 7, TxnAbort]"
  by code_simp

text \<open>
  C10. On upscaledb, when the name does not convert to a 16-bit unsigned number,
  \<open>SelectTable\<close> fails with the invalid-argument error and leaves the handle and the
  environment untouched; and a \<open>SelectTable\<close> that succeeds has a name that converts,
  to the number of the database that is then current.
\<close>

theorem ups_select_numeric_only:
  assumes "ups_SelectImpl conv e h name = (r, h', e')"
  shows "(conv name = None \<longrightarrow> r = Inl ErrInval \<and> h' = h \<and> e' = e) \<and>
         (\<forall>info. r = Inr info \<longrightarrow> (\<exists>num c. conv name = Some num \<and> h' = Some c \<and> cur_db c = num))"
proof (intro conjI impI allI)
  assume "conv name = None"
  with assms show "r = Inl ErrInval" "h' = h" "e' = e"
    by (simp_all add: ups_SelectImpl_def)
next
  fix info
  assume "r = Inr info"
  with ups_SelectImpl_result [OF assms]
  show "\<exists>num c. conv name = Some num \<and> h' = Some c \<and> cur_db c = num" by auto
qed

theorem ups_select_numeric_only_witness:
  "ConvertFromString_u16 ''foo'' = None \<and>
   ups_SelectImpl ConvertFromString_u16 ex_uenv (Some ex_uctx) ''foo'' =
     (Inl ErrInval, Some ex_uctx, ex_uenv) \<and>
   ConvertFromString_u16 ''1'' = Some 1 \<and>
   fst (ups_SelectImpl ConvertFromString_u16 ex_uenv (Some ex_uctx) ''1'') =
     Inr \<lparr>info_name = ''1'', info_flag = True, info_kcount = 3\<rparr>"
proof -
  have triple: "\<And>p. p = (fst p, fst (snd p), snd (snd p))" by simp
  note T = ups_select_numeric_only [where conv = ConvertFromString_u16 and e = ex_uenv
      and h = "Some ex_uctx" and name = "''foo''", OF triple]
  from T ex_convert(3)
  have "ups_SelectImpl ConvertFromString_u16 ex_uenv (Some ex_uctx) ''foo'' =
     (Inl ErrInval, Some ex_uctx, ex_uenv)"
    by (simp add: prod_eq_iff)
  with ex_convert ex_select_ups show ?thesis by (simp only: simp_thms)
qed

section \<open>Parsing the settings string\<close>

lemma from_string_loop_prefix:
  "CHR '','' \<notin> set xs \<Longrightarrow>
   from_string_loop b (xs @ ys) commaCount elText result =
     from_string_loop b ys commaCount (elText @ xs) result"
  by (induction xs arbitrary: elText) auto

text \<open>With two commas only, the type and the path are set and the third field is dropped.\<close>

lemma settings_string_two_commas:
  assumes "CHR '','' \<notin> set ty" and "CHR '','' \<notin> set path" and "CHR '','' \<notin> set ms"
    and "CreateFromType b (crT_of ty) [] = Some r0"
  shows "CreateFromString b (ty @ '','' @ path @ '','' @ ms) = Returns (Some (r0\<lparr>s_path := path\<rparr>))"
  using assms from_string_loop_prefix [of ms b "[]"]
  by (simp add: CreateFromString_def from_string_loop_prefix)

text \<open>
  C9. Take a settings string with three commas or more: a first field, a second field
  and a third field without commas, then a comma and any remainder. When the first
  character of the first field, less 48, is the number of a backend that is built in
  and is not remote, \<open>CreateFromString\<close> returns the settings of that backend with the
  second field as the connection path, the third field converted as the logging
  interval, and the remainder after the third comma, commas included, as the command
  line.
\<close>

theorem settings_string_local:
  assumes "CHR '','' \<notin> set ty" and "CHR '','' \<notin> set path" and "CHR '','' \<notin> set ms"
    and "CreateFromType b (crT_of ty) [] = Some r0"
    and "\<not> IsRemoteType b (s_type r0)"
  shows "CreateFromString b (ty @ '','' @ path @ '','' @ ms @ '','' @ rest) =
     Returns (Some (r0\<lparr>s_path := path, s_ms := conv_u32 b ms, s_cmdline := rest\<rparr>))"
  using assms
  by (simp add: CreateFromString_def from_string_loop_prefix)

theorem settings_string_local_witness:
  "CHR '','' \<notin> set ''6'' \<and> CHR '','' \<notin> set ''/tmp/db'' \<and> CHR '','' \<notin> set ''1000'' \<and>
   CreateFromType ex_build (crT_of ''6'') [] = Some (new_settings ex_build LMDB []) \<and>
   \<not> IsRemoteType ex_build (s_type (new_settings ex_build LMDB [])) \<and>
   CreateFromString ex_build ''6,/tmp/db,1000,-f /tmp/db,x=1'' =
     Returns (Some \<lparr>s_type = LMDB, s_path = ''/tmp/db'', s_ms = 1000,
                    s_cmdline = ''-f /tmp/db,x=1'', s_ssh = None\<rparr>)"
proof -
  have h: "CHR '','' \<notin> set ''6''" "CHR '','' \<notin> set ''/tmp/db''" "CHR '','' \<notin> set ''1000''"
    "CreateFromType ex_build (crT_of ''6'') [] = Some (new_settings ex_build LMDB [])"
    "\<not> IsRemoteType ex_build (s_type (new_settings ex_build LMDB []))"
    by (simp_all add: CreateFromType_def crT_of_def char_int_def ex_build_def new_settings_def)
  from settings_string_local [OF h, of "''-f /tmp/db,x=1''"]
  have "CreateFromString ex_build ''6,/tmp/db,1000,-f /tmp/db,x=1'' =
     Returns (Some \<lparr>s_type = LMDB, s_path = ''/tmp/db'', s_ms = 1000,
                    s_cmdline = ''-f /tmp/db,x=1'', s_ssh = None\<rparr>)"
    by (simp add: ex_build_def new_settings_def)
  with h show ?thesis by (simp only: simp_thms)
qed


end
